theory Spec2Isabelle
  imports Main "HOL-Library.Word" "HOL-Library.Char_ord" "HOL-Library.List_Lexorder"
    "HOL-Library.Code_Target_Numeral"
begin

section \<open>Value model (DeviceTree.h, DeviceTree.cpp)\<close>

text \<open>
  \<^verbatim>\<open>PropertyValue\<close> is a \<^verbatim>\<open>std::variant\<close> of four alternatives; a property is a name with
  such a value.  A node owns its properties and its children.  \<^verbatim>\<open>std::string\<close> is a byte
  string, here \<^typ>\<open>string\<close>; its \<^verbatim>\<open>operator<\<close> compares bytes as unsigned values and then
  lengths, which is the lexicographic order of \<^typ>\<open>char list\<close>.
\<close>

type_synonym u8 = "8 word"
type_synonym u32 = "32 word"
type_synonym u64 = "64 word"

datatype PropertyValue =
    StringV string
  | BinaryV "u8 list"
  | CellsV "u32 list"
  | Cells64V "u64 list"

record DeviceTreeProperty =
  pname :: string
  pvalue :: PropertyValue

datatype DeviceTreeNode =
  Node (name: string) (properties: "DeviceTreeProperty list") (children: "DeviceTreeNode list")

record DeviceTree =
  root :: "DeviceTreeNode option"
  sourceFile :: string

definition isString :: "DeviceTreeProperty \<Rightarrow> bool" where
  "isString p = (case pvalue p of StringV _ \<Rightarrow> True | _ \<Rightarrow> False)"

definition isBinary :: "DeviceTreeProperty \<Rightarrow> bool" where
  "isBinary p = (case pvalue p of BinaryV _ \<Rightarrow> True | _ \<Rightarrow> False)"

definition isCells :: "DeviceTreeProperty \<Rightarrow> bool" where
  "isCells p = (case pvalue p of CellsV _ \<Rightarrow> True | _ \<Rightarrow> False)"

definition isCells64 :: "DeviceTreeProperty \<Rightarrow> bool" where
  "isCells64 p = (case pvalue p of Cells64V _ \<Rightarrow> True | _ \<Rightarrow> False)"

subsection \<open>Rendering a value: \<^verbatim>\<open>getValueAsString\<close>\<close>

definition hex_digit :: "nat \<Rightarrow> char" where
  "hex_digit d = (''0123456789abcdef'') ! (d mod 16)"

text \<open>\<^verbatim>\<open>std::hex\<close> output of an unsigned value: lower-case digits, no leading zeros.\<close>

function hex_of_nat :: "nat \<Rightarrow> string" where
  "hex_of_nat n = (if n < 16 then [hex_digit n] else hex_of_nat (n div 16) @ [hex_digit n])"
  by pat_completeness auto
termination
  by (relation "measure id") auto

text \<open>\<^verbatim>\<open>std::setw(2) << std::setfill('0')\<close>: pad on the left to two characters.\<close>

definition hex2_of_nat :: "nat \<Rightarrow> string" where
  "hex2_of_nat n = (let s = hex_of_nat n in replicate (2 - length s) CHR ''0'' @ s)"

text \<open>The loops of \<^verbatim>\<open>getValueAsString\<close> write a space before every item but the first.\<close>

fun join_space :: "string list \<Rightarrow> string" where
  "join_space [] = []"
| "join_space [x] = x"
| "join_space (x # y # ys) = x @ '' '' @ join_space (y # ys)"

definition getValueAsString :: "DeviceTreeProperty \<Rightarrow> string" where
  "getValueAsString p =
     (case pvalue p of
        StringV s \<Rightarrow> [CHR 0x22] @ s @ [CHR 0x22]
      | BinaryV bs \<Rightarrow> ''['' @ join_space (map (\<lambda>b. ''0x'' @ hex2_of_nat (unat b)) bs) @ '']''
      | CellsV cs \<Rightarrow> ''<'' @ join_space (map (\<lambda>c. ''0x'' @ hex_of_nat (unat c)) cs) @ ''>''
      | Cells64V cs \<Rightarrow> ''<'' @ join_space (map (\<lambda>c. ''0x'' @ hex_of_nat (unat c)) cs) @ ''>'')"

definition getValueAsBinary :: "DeviceTreeProperty \<Rightarrow> u8 list" where
  "getValueAsBinary p = (case pvalue p of BinaryV bs \<Rightarrow> bs | _ \<Rightarrow> [])"

definition getValueAsCells :: "DeviceTreeProperty \<Rightarrow> u32 list" where
  "getValueAsCells p = (case pvalue p of CellsV cs \<Rightarrow> cs | _ \<Rightarrow> [])"

definition getValueAsCells64 :: "DeviceTreeProperty \<Rightarrow> u64 list" where
  "getValueAsCells64 p = (case pvalue p of Cells64V cs \<Rightarrow> cs | _ \<Rightarrow> [])"

subsection \<open>Editing a node: \<^verbatim>\<open>addProperty\<close>, \<^verbatim>\<open>removeProperty\<close>, \<^verbatim>\<open>addChild\<close>\<close>

definition removeProperty :: "string \<Rightarrow> DeviceTreeNode \<Rightarrow> DeviceTreeNode" where
  "removeProperty nm n =
     Node (name n) (filter (\<lambda>p. pname p \<noteq> nm) (properties n)) (children n)"

definition addProperty :: "DeviceTreeProperty \<Rightarrow> DeviceTreeNode \<Rightarrow> DeviceTreeNode" where
  "addProperty p n =
     (let n' = removeProperty (pname p) n in Node (name n') (properties n' @ [p]) (children n'))"

definition addChild :: "DeviceTreeNode \<Rightarrow> DeviceTreeNode \<Rightarrow> DeviceTreeNode" where
  "addChild c n = Node (name n) (properties n) (children n @ [c])"

section \<open>The sorted associative container \<^verbatim>\<open>std::map<std::string, T>\<close>\<close>

text \<open>
  A \<^verbatim>\<open>std::map\<close> is kept as the list of its entries in ascending key order, which is the
  order in which a range-for loop visits them.  \<^verbatim>\<open>m[k] = v\<close> inserts the key at its place
  or overwrites the value of a key already present; \<^verbatim>\<open>m.find(k)\<close> is the lookup.
\<close>

type_synonym 'v strmap = "(string \<times> 'v) list"

fun map_assign :: "string \<Rightarrow> 'v \<Rightarrow> 'v strmap \<Rightarrow> 'v strmap" where
  "map_assign k v [] = [(k, v)]"
| "map_assign k v ((k', v') # m) =
     (if k < k' then (k, v) # (k', v') # m
      else if k = k' then (k, v) # m
      else (k', v') # map_assign k v m)"

definition map_find :: "string \<Rightarrow> 'v strmap \<Rightarrow> 'v option" where
  "map_find k m = map_of m k"

text \<open>\<^verbatim>\<open>for (const auto& x : xs) m[key(x)] = x;\<close> starting from the map \<open>m\<close>.\<close>

fun map_fill :: "('v \<Rightarrow> string) \<Rightarrow> 'v list \<Rightarrow> 'v strmap \<Rightarrow> 'v strmap" where
  "map_fill key [] m = m"
| "map_fill key (x # xs) m = map_fill key xs (map_assign (key x) x m)"

section \<open>Diff engine (DeviceTreeDiff.h, DeviceTreeDiff.cpp)\<close>

datatype DiffType = Added | Removed | Modified | Unchanged

record DiffEntry =
  type :: DiffType
  path :: string
  propertyName :: string
  oldValue :: string
  newValue :: string
  description :: string

text \<open>A default-constructed \<^verbatim>\<open>DiffEntry\<close> has empty strings; its \<^verbatim>\<open>type\<close> is always assigned
  before the entry is stored, so the constructor here takes it.\<close>

definition newEntry :: "DiffType \<Rightarrow> DiffEntry" where
  "newEntry t = \<lparr>type = t, path = [], propertyName = [], oldValue = [], newValue = [],
                 description = []\<rparr>"

definition propertyValueToString :: "DeviceTreeProperty \<Rightarrow> string" where
  "propertyValueToString prop = getValueAsString prop"

definition propertiesEqual :: "DeviceTreeProperty \<Rightarrow> DeviceTreeProperty \<Rightarrow> bool" where
  "propertiesEqual prop1 prop2 =
     (if isString prop1 \<and> isString prop2 then getValueAsString prop1 = getValueAsString prop2
      else if isBinary prop1 \<and> isBinary prop2 then getValueAsBinary prop1 = getValueAsBinary prop2
      else if isCells prop1 \<and> isCells prop2 then getValueAsCells prop1 = getValueAsCells prop2
      else if isCells64 prop1 \<and> isCells64 prop2
        then getValueAsCells64 prop1 = getValueAsCells64 prop2
      else False)"

text \<open>
  \<^verbatim>\<open>compareProperties\<close> and \<^verbatim>\<open>compareNodes\<close> append to the member \<^verbatim>\<open>diffCache_\<close> and read
  nothing from it; each is modelled by the list of entries it appends, in order, so that a
  sequence of calls is the concatenation of their lists.
\<close>

definition compareProperties :: "DeviceTreeNode \<Rightarrow> DeviceTreeNode \<Rightarrow> string \<Rightarrow> DiffEntry list"
where
  "compareProperties baseNode overlayNode pth =
     (let basePropMap = map_fill pname (properties baseNode) [];
          overlayPropMap = map_fill pname (properties overlayNode) []
      in concat (map (\<lambda>pair.
            case map_find (fst pair) basePropMap of
              None \<Rightarrow>
                [(newEntry Added)\<lparr>path := pth, propertyName := fst pair,
                    newValue := propertyValueToString (snd pair),
                    description := ''Property added: '' @ fst pair\<rparr>]
            | Some it \<Rightarrow>
                if \<not> propertiesEqual it (snd pair)
                then [(newEntry Modified)\<lparr>path := pth, propertyName := fst pair,
                        oldValue := propertyValueToString it,
                        newValue := propertyValueToString (snd pair),
                        description := ''Property modified: '' @ fst pair\<rparr>]
                else []) overlayPropMap)
         @ concat (map (\<lambda>pair.
            if map_find (fst pair) overlayPropMap = None
            then [(newEntry Removed)\<lparr>path := pth, propertyName := fst pair,
                    oldValue := propertyValueToString (snd pair),
                    description := ''Property removed: '' @ fst pair\<rparr>]
            else []) basePropMap))"

lemma map_assign_values: "(k', v') \<in> set (map_assign k v m) \<Longrightarrow> v' = v \<or> (k', v') \<in> set m"
  by (induction m) (auto split: if_splits)

lemma map_fill_values:
  "(k, v) \<in> set (map_fill key xs m) \<Longrightarrow> v \<in> set xs \<or> (k, v) \<in> set m"
  by (induction xs arbitrary: m) (auto dest: map_assign_values)

lemma map_find_values: "map_find k (map_fill key xs []) = Some v \<Longrightarrow> v \<in> set xs"
  unfolding map_find_def using map_fill_values [of k v key xs "[]"] by (auto dest: map_of_SomeD)

lemma size_child: "c \<in> set cs \<Longrightarrow> size c < Suc (size_list size cs)"
  by (induction cs) auto

function compareNodes ::
  "DeviceTreeNode option \<Rightarrow> DeviceTreeNode option \<Rightarrow> string \<Rightarrow> DiffEntry list"
where
  "compareNodes None None pth = []"
| "compareNodes None (Some overlayNode) pth =
     [(newEntry Added)\<lparr>path := pth, description := ''Node added: '' @ name overlayNode\<rparr>]
     @ concat (map (\<lambda>child. compareNodes None (Some child) (pth @ ''/'' @ name child))
                (children overlayNode))"
| "compareNodes (Some baseNode) None pth =
     [(newEntry Removed)\<lparr>path := pth, description := ''Node removed: '' @ name baseNode\<rparr>]
     @ concat (map (\<lambda>child. compareNodes (Some child) None (pth @ ''/'' @ name child))
                (children baseNode))"
| "compareNodes (Some baseNode) (Some overlayNode) pth =
     compareProperties baseNode overlayNode pth
     @ (let baseChildren = map_fill name (children baseNode) [];
            overlayChildren = map_fill name (children overlayNode) []
        in concat (map (\<lambda>pair.
              case map_find (fst pair) baseChildren of
                None \<Rightarrow> compareNodes None (Some (snd pair)) (pth @ ''/'' @ fst pair)
              | Some it \<Rightarrow> compareNodes (Some it) (Some (snd pair)) (pth @ ''/'' @ fst pair))
              overlayChildren)
           @ concat (map (\<lambda>pair.
              if map_find (fst pair) overlayChildren = None
              then compareNodes (Some (snd pair)) None (pth @ ''/'' @ fst pair)
              else []) baseChildren))"
  by pat_completeness auto
termination
proof (relation "measure (\<lambda>(b, ov, p). size_option size b + size_option size ov)", goal_cases)
  case 1
  show ?case by simp
next
  case (2 overlayNode pth child)
  then show ?case by (cases overlayNode) (auto dest: size_child)
next
  case (3 baseNode pth child)
  then show ?case by (cases baseNode) (auto dest: size_child)
next
  case (4 baseNode overlayNode pth bc oc pair)
  then have "snd pair \<in> set (children overlayNode)"
    using map_fill_values [of "fst pair" "snd pair" name "children overlayNode" "[]"] by simp
  then show ?case by (cases overlayNode) (auto dest: size_child)
next
  case (5 baseNode overlayNode pth bc oc pair it)
  then have "snd pair \<in> set (children overlayNode)"
    using map_fill_values [of "fst pair" "snd pair" name "children overlayNode" "[]"] by simp
  moreover from 5 have "it \<in> set (children baseNode)"
    by (auto dest: map_find_values)
  ultimately show ?case
    by (cases overlayNode; cases baseNode) (auto dest!: size_child)
next
  case (6 baseNode overlayNode pth bc oc pair)
  then have "snd pair \<in> set (children baseNode)"
    using map_fill_values [of "fst pair" "snd pair" name "children baseNode" "[]"] by simp
  then show ?case by (cases baseNode) (auto dest: size_child)
qed


text \<open>
  The defining equations of \<open>compareNodes\<close> rewrite under the \<open>\<lambda>\<close> of their own right-hand
  sides, so they are not simplification rules; the equations below, on an explicit node,
  are.
\<close>

declare compareNodes.simps [simp del]

lemma compareNodes_Node [simp]:
  "compareNodes None (Some (Node n ps cs)) pth =
     [(newEntry Added)\<lparr>path := pth, description := ''Node added: '' @ n\<rparr>]
     @ concat (map (\<lambda>child. compareNodes None (Some child) (pth @ ''/'' @ name child)) cs)"
  "compareNodes (Some (Node n ps cs)) None pth =
     [(newEntry Removed)\<lparr>path := pth, description := ''Node removed: '' @ n\<rparr>]
     @ concat (map (\<lambda>child. compareNodes (Some child) None (pth @ ''/'' @ name child)) cs)"
  by (subst compareNodes.simps, simp)+

lemma compareNodes_Node_both [simp]:
  "compareNodes (Some (Node n ps cs)) (Some (Node n' ps' cs')) pth =
     compareProperties (Node n ps cs) (Node n' ps' cs') pth
     @ (let baseChildren = map_fill name cs [];
            overlayChildren = map_fill name cs' []
        in concat (map (\<lambda>pair.
              case map_find (fst pair) baseChildren of
                None \<Rightarrow> compareNodes None (Some (snd pair)) (pth @ ''/'' @ fst pair)
              | Some it \<Rightarrow> compareNodes (Some it) (Some (snd pair)) (pth @ ''/'' @ fst pair))
              overlayChildren)
           @ concat (map (\<lambda>pair.
              if map_find (fst pair) overlayChildren = None
              then compareNodes (Some (snd pair)) None (pth @ ''/'' @ fst pair)
              else []) baseChildren))"
  by (subst compareNodes.simps, simp)

subsection \<open>The engine object\<close>

text \<open>
  A \<^verbatim>\<open>std::shared_ptr<DeviceTree>\<close> that may be null is an \<^typ>\<open>DeviceTree option\<close>.  The
  \<^verbatim>\<open>mutable\<close> members \<^verbatim>\<open>diffCache_\<close> and \<^verbatim>\<open>diffGenerated_\<close> are state, so \<^verbatim>\<open>generateDiff\<close>
  returns the engine it leaves behind together with its result.
\<close>

record DeviceTreeDiff =
  baseTree :: "DeviceTree option"
  overlayTree :: "DeviceTree option"
  diffCache :: "DiffEntry list"
  diffGenerated :: bool

definition DeviceTreeDiff_new :: "DeviceTree option \<Rightarrow> DeviceTree option \<Rightarrow> DeviceTreeDiff"
where
  "DeviceTreeDiff_new base overlay =
     \<lparr>baseTree = base, overlayTree = overlay, diffCache = [], diffGenerated = False\<rparr>"

definition isValid :: "DeviceTreeDiff \<Rightarrow> bool" where
  "isValid d = (baseTree d \<noteq> None \<and> overlayTree d \<noteq> None)"

definition getValidationErrors :: "DeviceTreeDiff \<Rightarrow> string list" where
  "getValidationErrors d =
     (if baseTree d = None then [''Base device tree is null''] else [])
     @ (if overlayTree d = None then [''Overlay device tree is null''] else [])"

definition generateDiffInternal :: "DeviceTreeDiff \<Rightarrow> DeviceTreeDiff" where
  "generateDiffInternal d =
     (let d1 = d\<lparr>diffCache := []\<rparr> in
      if \<not> isValid d1 then d1
      else case (baseTree d1, overlayTree d1) of
        (Some b, Some ov) \<Rightarrow>
          d1\<lparr>diffCache := diffCache d1 @ compareNodes (root b) (root ov) ''/'',
             diffGenerated := True\<rparr>
      | _ \<Rightarrow> d1)"

definition generateDiff :: "DeviceTreeDiff \<Rightarrow> DiffEntry list \<times> DeviceTreeDiff" where
  "generateDiff d =
     (let d' = (if \<not> diffGenerated d then generateDiffInternal d else d)
      in (diffCache d', d'))"

definition getTotalChanges :: "DeviceTreeDiff \<Rightarrow> nat" where
  "getTotalChanges d = length (fst (generateDiff d))"

text \<open>The tree a decoder hands over: a root and the name of the file it came from.\<close>

definition mkTree :: "DeviceTreeNode \<Rightarrow> DeviceTree" where
  "mkTree r = \<lparr>root = Some r, sourceFile = []\<rparr>"

text \<open>For the statement of the order in which children are compared: the child a
  name stands for, which is the last child of that name, since a later assignment to the
  same key of the association overwrites an earlier one.\<close>

definition child_named :: "string \<Rightarrow> DeviceTreeNode list \<Rightarrow> DeviceTreeNode option" where
  "child_named k cs =
     (let named = filter (\<lambda>c. name c = k) cs in if named = [] then None else Some (last named))"


text \<open>
  For the statement of what the engine emits for a node that only the overlay has: the
  nodes of a subtree, each with its path, in depth-first order (a node before its
  children, the children in the order of \<^verbatim>\<open>children_\<close>), the path of a child being the path
  of its parent, \<^verbatim>\<open>/\<close> and the name of the child; and the node-level \<open>Added\<close> entry for a path
  and a name.
\<close>

fun subtree_paths :: "string \<Rightarrow> DeviceTreeNode \<Rightarrow> (string \<times> string) list" where
  "subtree_paths pth (Node n ps cs) =
     (pth, n) # concat (map (\<lambda>c. subtree_paths (pth @ ''/'' @ name c) c) cs)"

definition addedNodeEntry :: "string \<times> string \<Rightarrow> DiffEntry" where
  "addedNodeEntry pn =
     \<lparr>type = Added, path = fst pn, propertyName = [], oldValue = [], newValue = [],
      description = ''Node added: '' @ snd pn\<rparr>"

section \<open>Text decoder (class \<^verbatim>\<open>DTSParser\<close>, DeviceTreeParser.cpp)\<close>

subsection \<open>Streams and \<^verbatim>\<open>std::string\<close> operations\<close>

text \<open>
  An input stream is the text still to be read.  \<^verbatim>\<open>std::getline(stream, line, delim)\<close>
  fails when nothing is left; otherwise it yields the characters before the first
  delimiter and consumes them and that delimiter.
\<close>

definition getline :: "char \<Rightarrow> string \<Rightarrow> (string \<times> string) option" where
  "getline delim s =
     (if s = [] then None
      else Some (takeWhile (\<lambda>c. c \<noteq> delim) s, drop 1 (dropWhile (\<lambda>c. c \<noteq> delim) s)))"

definition newline :: char where
  "newline = CHR 0x0A"

definition tab :: char where
  "tab = CHR 0x09"

text \<open>\<^verbatim>\<open>s.find(pat)\<close>: the first position where \<open>pat\<close> occurs, \<open>None\<close> for \<^verbatim>\<open>npos\<close>.\<close>

fun str_find :: "string \<Rightarrow> string \<Rightarrow> nat option" where
  "str_find pat [] = (if pat = [] then Some 0 else None)"
| "str_find pat (c # s) =
     (if take (length pat) (c # s) = pat then Some 0 else map_option Suc (str_find pat s))"

definition str_contains :: "string \<Rightarrow> string \<Rightarrow> bool" where
  "str_contains pat s = (str_find pat s \<noteq> None)"

text \<open>\<^verbatim>\<open>s[i]\<close> for \<open>i \<le> s.size()\<close>: the character at \<^verbatim>\<open>s.size()\<close> is the terminating NUL.\<close>

definition str_at :: "string \<Rightarrow> nat \<Rightarrow> char" where
  "str_at s i = (if i < length s then s ! i else CHR 0x00)"

text \<open>\<^verbatim>\<open>s.erase(0, s.find_first_not_of(" \t"))\<close> and
  \<^verbatim>\<open>s.erase(s.find_last_not_of(" \t") + 1)\<close>; both empty a string of blanks only.\<close>

definition is_blank :: "char \<Rightarrow> bool" where
  "is_blank c = (c = CHR '' '' \<or> c = tab)"

definition erase_leading :: "string \<Rightarrow> string" where
  "erase_leading s = dropWhile is_blank s"

definition erase_trailing :: "string \<Rightarrow> string" where
  "erase_trailing s = rev (dropWhile is_blank (rev s))"

text \<open>\<^verbatim>\<open>s.substr(pos, n)\<close> for \<open>pos \<le> s.size()\<close>, with \<open>n\<close> a \<^verbatim>\<open>size_t\<close>: the callers compute
  \<^verbatim>\<open>length() - 2\<close>, which wraps around on a string of one character.\<close>

definition substr :: "string \<Rightarrow> nat \<Rightarrow> nat \<Rightarrow> string" where
  "substr s pos n = take n (drop pos s)"

definition size_sub :: "nat \<Rightarrow> nat \<Rightarrow> nat" where
  "size_sub a b = (a + 2 ^ 64 - b) mod 2 ^ 64"

subsection \<open>\<^verbatim>\<open>std::stoul(s, nullptr, 16)\<close>\<close>

text \<open>
  As \<^verbatim>\<open>strtoul\<close> with base 16 on a 64-bit \<^verbatim>\<open>unsigned long\<close>: white space is skipped, a
  sign and a \<^verbatim>\<open>0x\<close> prefix are accepted, the longest run of hexadecimal digits is read
  and what follows is ignored.  No digit at all is \<^verbatim>\<open>std::invalid_argument\<close>, a value
  beyond 64 bits \<^verbatim>\<open>std::out_of_range\<close>: both are \<open>None\<close> here, since the caller catches
  every exception alike.  A minus sign negates modulo \<open>2^64\<close>.
\<close>

definition is_space :: "char \<Rightarrow> bool" where
  "is_space c = (c \<in> set [CHR '' '', CHR 0x09, CHR 0x0A, CHR 0x0B, CHR 0x0C, CHR 0x0D])"

definition hex_value :: "char \<Rightarrow> nat option" where
  "hex_value c =
     (let n = (of_char c :: nat) in
      if 48 \<le> n \<and> n \<le> 57 then Some (n - 48)
      else if 97 \<le> n \<and> n \<le> 102 then Some (n - 87)
      else if 65 \<le> n \<and> n \<le> 70 then Some (n - 55)
      else None)"

definition is_xdigit :: "char \<Rightarrow> bool" where
  "is_xdigit c = (hex_value c \<noteq> None)"

definition hex_number :: "string \<Rightarrow> nat" where
  "hex_number ds = foldl (\<lambda>acc c. 16 * acc + (case hex_value c of Some d \<Rightarrow> d | None \<Rightarrow> 0)) 0 ds"

definition stoul16 :: "string \<Rightarrow> nat option" where
  "stoul16 s =
     (let s1 = dropWhile is_space s;
          neg = (take 1 s1 = ''-'');
          s2 = (if take 1 s1 = ''-'' \<or> take 1 s1 = ''+'' then drop 1 s1 else s1);
          prefixed = ((take 2 s2 = ''0x'' \<or> take 2 s2 = ''0X'') \<and> is_xdigit (str_at s2 2));
          s3 = (if prefixed then drop 2 s2 else s2);
          digits = takeWhile is_xdigit s3;
          v = hex_number digits
      in if digits = [] then None
         else if v \<ge> 2 ^ 64 then None
         else Some (if neg then (2 ^ 64 - v) mod 2 ^ 64 else v))"

subsection \<open>Property values\<close>

text \<open>
  \<^verbatim>\<open>std::runtime_error\<close> with its message (the constant part of it, where the source
  appends a number).  \<open>OutOfBounds\<close> is not an exception of the program: it stands for a
  read outside the file buffer in the binary decoder, which the program does not check.
\<close>

datatype error = RuntimeError string | OutOfBounds

text \<open>
  The two token loops of \<^verbatim>\<open>parseDTSProperty\<close>, for cells and for bytes, differ in the
  element type of the vector and in the message: \<^verbatim>\<open>push_back\<close> converts the
  \<^verbatim>\<open>unsigned long\<close> to the element type, that is, truncates it.
\<close>

lemma getline_shorter: "getline d s = Some (l, s') \<Longrightarrow> length s' < length s"
proof -
  assume g: "getline d s = Some (l, s')"
  then have ne: "s \<noteq> []" and s': "s' = drop 1 (dropWhile (\<lambda>c. c \<noteq> d) s)"
    by (auto simp: getline_def split: if_splits)
  have "length (dropWhile (\<lambda>c. c \<noteq> d) s) \<le> length s"
    by (rule length_dropWhile_le)
  with ne show ?thesis
    unfolding s' by (cases s) auto
qed

function hexTokens :: "string \<Rightarrow> string \<Rightarrow> 'a::len word list \<Rightarrow> error + 'a word list" where
  "hexTokens msg stream acc =
     (case getline CHR '' '' stream of
        None \<Rightarrow> Inr acc
      | Some (cell, rest) \<Rightarrow>
          if cell \<noteq> [] then
            (let cell' = (if substr cell 0 2 = ''0x'' then drop 2 cell else cell) in
             case stoul16 cell' of
               None \<Rightarrow> Inl (RuntimeError (msg @ cell'))
             | Some v \<Rightarrow> hexTokens msg rest (acc @ [of_nat v]))
          else hexTokens msg rest acc)"
  by pat_completeness auto
termination
  by (relation "measure (\<lambda>(msg, stream, acc). length stream)") (auto dest: getline_shorter)

declare hexTokens.simps [simp del]

definition dtsPropertyValue :: "string \<Rightarrow> error + PropertyValue" where
  "dtsPropertyValue v =
     (if v = [] then Inr (StringV [])
      else if str_at v 0 = CHR 0x22 \<and> str_at v (length v - 1) = CHR 0x22
        then Inr (StringV (substr v 1 (size_sub (length v) 2)))
      else if str_at v 0 = CHR ''<'' \<and> str_at v (length v - 1) = CHR ''>''
        then map_sum id CellsV
               (hexTokens ''Invalid cell value: '' (substr v 1 (size_sub (length v) 2)) [])
      else if str_at v 0 = CHR ''['' \<and> str_at v (length v - 1) = CHR '']''
        then map_sum id BinaryV
               (hexTokens ''Invalid binary value: '' (substr v 1 (size_sub (length v) 2)) [])
      else Inr (StringV v))"

subsection \<open>\<^verbatim>\<open>parseDTSValue\<close> and \<^verbatim>\<open>parseDTSProperty\<close>\<close>

text \<open>The continuation loop of \<^verbatim>\<open>parseDTSValue\<close>: it returns the value and the stream left.\<close>

function parseDTSValue_loop :: "string \<Rightarrow> string \<Rightarrow> string \<times> string" where
  "parseDTSValue_loop fullValue stream =
     (case getline newline stream of
        None \<Rightarrow> (fullValue, stream)
      | Some (line, rest) \<Rightarrow>
          (case str_find '';'' line of
             Some i \<Rightarrow> (fullValue @ substr line 0 i, rest)
           | None \<Rightarrow> parseDTSValue_loop (fullValue @ line) rest))"
  by pat_completeness auto
termination
  by (relation "measure (\<lambda>(fullValue, stream). length stream)") (auto dest: getline_shorter)

declare parseDTSValue_loop.simps [simp del]

definition parseDTSValue :: "string \<Rightarrow> string \<Rightarrow> string \<times> string" where
  "parseDTSValue stream line =
     (let v0 = (case str_find ''='' line of Some equalPos \<Rightarrow> drop (equalPos + 1) line
                | None \<Rightarrow> line);
          v1 = erase_trailing (erase_leading v0);
          v = (if v1 \<noteq> [] \<and> str_at v1 (length v1 - 1) = CHR '';''
               then substr v1 0 (length v1 - 1) else v1)
      in if str_contains [CHR 0x5C] v then parseDTSValue_loop v stream
         else (v, stream))"

text \<open>The result of \<^verbatim>\<open>parseDTSProperty\<close> is the property or the exception thrown, and
  in both cases the stream as the call leaves it.\<close>

definition parseDTSProperty :: "string \<Rightarrow> string \<Rightarrow> (error + DeviceTreeProperty) \<times> string" where
  "parseDTSProperty stream line =
     (case str_find ''='' line of
        None \<Rightarrow>
          (Inl (RuntimeError (''Invalid property syntax: missing '' @ [CHR 0x27] @ ''=''
                  @ [CHR 0x27])), stream)
      | Some equalPos \<Rightarrow>
          (let propName = erase_trailing (erase_leading (substr line 0 equalPos)) in
           if propName = [] then (Inl (RuntimeError ''Empty property name''), stream)
           else
             (let (v, stream') = parseDTSValue stream line in
              case dtsPropertyValue v of
                Inl e \<Rightarrow> (Inl e, stream')
              | Inr propValue \<Rightarrow> (Inr \<lparr>pname = propName, pvalue = propValue\<rparr>, stream'))))"


subsection \<open>Nodes under construction\<close>

text \<open>
  A \<^verbatim>\<open>std::shared_ptr<DeviceTreeNode>\<close> into a tree is the position of the node: the
  indices of the children to follow from the root, the empty list for the root itself.
  Writing through the pointer updates the tree at that position.
\<close>

type_synonym position = "nat list"

fun node_at :: "DeviceTreeNode \<Rightarrow> position \<Rightarrow> DeviceTreeNode option" where
  "node_at n [] = Some n"
| "node_at n (i # is) = (if i < length (children n) then node_at (children n ! i) is else None)"

fun update_at :: "position \<Rightarrow> (DeviceTreeNode \<Rightarrow> DeviceTreeNode) \<Rightarrow> DeviceTreeNode
    \<Rightarrow> DeviceTreeNode" where
  "update_at [] f n = f n"
| "update_at (i # is) f n =
     (if i < length (children n)
      then Node (name n) (properties n) ((children n)[i := update_at is f (children n ! i)])
      else n)"

definition child_count :: "DeviceTreeNode \<Rightarrow> position \<Rightarrow> nat" where
  "child_count n pos = (case node_at n pos of Some c \<Rightarrow> length (children c) | None \<Rightarrow> 0)"

subsection \<open>\<^verbatim>\<open>parseDTSNode\<close>\<close>

definition is_skipped :: "string \<Rightarrow> bool" where
  "is_skipped trimmedLine =
     (trimmedLine = [] \<or> (str_at trimmedLine 0 = CHR ''/'' \<and> str_at trimmedLine 1 = CHR ''/'')
      \<or> str_at trimmedLine 0 = CHR ''*'')"

lemma parseDTSValue_loop_length:
  "length (snd (parseDTSValue_loop v stream)) \<le> length stream"
proof (induction v stream rule: parseDTSValue_loop.induct)
  case (1 fullValue stream)
  show ?case
  proof (cases "getline newline stream")
    case None
    then show ?thesis by (subst parseDTSValue_loop.simps) simp
  next
    case (Some p)
    obtain line rest where p: "p = (line, rest)" by (cases p)
    have less: "length rest < length stream"
      using Some p by (auto dest: getline_shorter)
    show ?thesis
    proof (cases "str_find '';'' line")
      case None
      with 1 [OF Some [unfolded p] refl None] less Some p show ?thesis
        by (subst parseDTSValue_loop.simps) simp
    next
      case (Some i)
      with less \<open>getline newline stream = Some p\<close> p show ?thesis
        by (subst parseDTSValue_loop.simps) simp
    qed
  qed
qed

lemma parseDTSValue_length: "length (snd (parseDTSValue stream line)) \<le> length stream"
  using parseDTSValue_loop_length [of _ stream] by (simp add: parseDTSValue_def Let_def)

lemma parseDTSProperty_length: "length (snd (parseDTSProperty stream line)) \<le> length stream"
proof (cases "str_find ''='' line")
  case None
  then show ?thesis by (simp add: parseDTSProperty_def)
next
  case (Some equalPos)
  obtain v stream' where pv: "parseDTSValue stream line = (v, stream')"
    by (cases "parseDTSValue stream line")
  with parseDTSValue_length [of stream line] have "length stream' \<le> length stream"
    by simp
  with Some pv show ?thesis
    by (simp add: parseDTSProperty_def Let_def split: sum.splits)
qed

lemma parseDTSProperty_shorter:
  assumes "getline d stream = Some (l, rest)" and "(r, rest') = parseDTSProperty rest line"
  shows "length rest' < length stream"
proof -
  have "length rest < length stream"
    using assms(1) by (rule getline_shorter)
  moreover have "length rest' \<le> length rest"
    using parseDTSProperty_length [of rest line] assms(2) [symmetric] by simp
  ultimately show ?thesis by simp
qed

text \<open>
  The inner loop of \<^verbatim>\<open>parseDTSNode\<close>.  \<open>node\<close> is the node being built, \<open>nodeStack\<close> the
  stack of pointers into it, its last element the innermost open node; the stack is
  never empty, since it starts with the root and the root is never popped.  What the
  \<^verbatim>\<open>catch\<close> clause does with an exception of \<^verbatim>\<open>parseDTSProperty\<close> is the \<open>Inl\<close> branch.
\<close>

function parseDTSNode_body ::
  "string \<Rightarrow> DeviceTreeNode \<Rightarrow> position list \<Rightarrow> DeviceTreeNode \<times> string" where
  "parseDTSNode_body stream node nodeStack =
     (case getline newline stream of
        None \<Rightarrow> (node, stream)
      | Some (line, rest) \<Rightarrow>
          (let trimmedLine = erase_leading line in
           if str_contains ''};'' trimmedLine then
             (if length nodeStack > 1 then parseDTSNode_body rest node (butlast nodeStack)
              else (node, rest))
           else if is_skipped trimmedLine then parseDTSNode_body rest node nodeStack
           else if str_contains ''='' line then
             (case parseDTSProperty rest line of
                (Inr prop, rest') \<Rightarrow>
                  parseDTSNode_body rest' (update_at (last nodeStack) (addProperty prop) node)
                    nodeStack
              | (Inl e, rest') \<Rightarrow> parseDTSNode_body rest' node nodeStack)
           else
             (case str_find ''{'' line of
                Some bracePos \<Rightarrow>
                  (let childNodeName = erase_trailing (erase_leading (substr line 0 bracePos));
                       childNode = Node childNodeName [] [];
                       back = last nodeStack
                   in parseDTSNode_body rest (update_at back (addChild childNode) node)
                        (nodeStack @ [back @ [child_count node back]]))
              | None \<Rightarrow> parseDTSNode_body rest node nodeStack)))"
  by pat_completeness auto
termination
  by (relation "measure (\<lambda>(stream, node, nodeStack). length stream)")
    (auto dest: getline_shorter parseDTSProperty_shorter)

declare parseDTSNode_body.simps [simp del]

text \<open>The outer loop of \<^verbatim>\<open>parseDTSNode\<close>: look for the line that opens the first node.
  The result is the node, or \<open>None\<close> for \<^verbatim>\<open>nullptr\<close>, and the stream left.\<close>

function parseDTSNode :: "string \<Rightarrow> DeviceTreeNode option \<times> string" where
  "parseDTSNode stream =
     (case getline newline stream of
        None \<Rightarrow> (None, stream)
      | Some (line, rest) \<Rightarrow>
          (let trimmedLine = erase_leading line in
           if is_skipped trimmedLine then parseDTSNode rest
           else if str_contains ''/dts-v1/;'' line then parseDTSNode rest
           else
             (case str_find ''{'' line of
                Some bracePos \<Rightarrow>
                  (let nodeName0 = erase_trailing (erase_leading (substr line 0 bracePos));
                       nodeName = (if nodeName0 = [] \<or> nodeName0 = ''/'' then ''/''
                                   else nodeName0);
                       (node, rest') = parseDTSNode_body rest (Node nodeName [] []) [[]]
                   in (Some node, rest'))
              | None \<Rightarrow> parseDTSNode rest)))"
  by pat_completeness auto
termination
  by (relation "measure length") (auto dest: getline_shorter)

declare parseDTSNode.simps [simp del]

text \<open>\<^verbatim>\<open>parseDTSFile\<close> on the content of a file that could be opened, and \<^verbatim>\<open>parse\<close>, which
  names the tree after the file.\<close>

definition parseDTSFile :: "string \<Rightarrow> DeviceTree \<Rightarrow> bool \<times> DeviceTree" where
  "parseDTSFile content tree =
     (case fst (parseDTSNode content) of
        Some rootNode \<Rightarrow> (True, tree\<lparr>root := Some rootNode\<rparr>)
      | None \<Rightarrow> (False, tree))"

definition DeviceTree_new :: DeviceTree where
  "DeviceTree_new = \<lparr>root = Some (Node ''/'' [] []), sourceFile = []\<rparr>"

definition DTSParser_parse :: "string \<Rightarrow> string \<Rightarrow> DeviceTree option" where
  "DTSParser_parse filename content =
     (case parseDTSFile content DeviceTree_new of
        (True, tree) \<Rightarrow> Some (tree\<lparr>sourceFile := filename\<rparr>)
      | (False, tree) \<Rightarrow> None)"


subsection \<open>Sample inputs\<close>

text \<open>The sample of the specification on one line, the same text with one item on each
  line, and a node with a line that has no \<^verbatim>\<open>=\<close> (the property \<^verbatim>\<open>ranges;\<close> of the
  repository's \<^verbatim>\<open>sample.dts\<close>).\<close>

definition sample_single_line :: string where
  "sample_single_line =
     ''/ { compatible = '' @ [CHR 0x22] @ ''test,device'' @ [CHR 0x22] @ ''; model = ''
       @ [CHR 0x22] @ ''Test Device'' @ [CHR 0x22] @ ''; };''"

definition sample_lines :: string where
  "sample_lines =
     ''/ {'' @ [CHR 0x0A]
     @ ''    compatible = '' @ [CHR 0x22] @ ''test,device'' @ [CHR 0x22] @ '';'' @ [CHR 0x0A]
     @ ''    model = '' @ [CHR 0x22] @ ''Test Device'' @ [CHR 0x22] @ '';'' @ [CHR 0x0A]
     @ ''};'' @ [CHR 0x0A]"

definition sample_no_equals :: string where
  "sample_no_equals =
     ''/ {'' @ [CHR 0x0A]
     @ ''    ranges;'' @ [CHR 0x0A]
     @ ''    a = '' @ [CHR 0x22] @ ''1'' @ [CHR 0x22] @ '';'' @ [CHR 0x0A]
     @ ''};'' @ [CHR 0x0A]"

section \<open>Binary decoder (class \<^verbatim>\<open>DTBParser\<close>, DeviceTreeParser.cpp)\<close>

subsection \<open>Reading the file buffer\<close>

text \<open>
  The buffer is the content of the file.  The decoder reads 32-bit words through a
  \<^verbatim>\<open>const uint32_t*\<close>, that is, in the byte order of the machine it runs on (\<open>hostLE\<close> for a
  little-endian machine), and swaps them when \<^verbatim>\<open>isLittleEndian\<close> is set.  It does not check
  that what it reads is inside the buffer; a read outside is \<open>OutOfBounds\<close> here.
  Offsets are \<^verbatim>\<open>size_t\<close> values far below \<open>2^64\<close>, here \<^typ>\<open>nat\<close>; the arithmetic the source does
  in \<^verbatim>\<open>uint32_t\<close> is done on \<^typ>\<open>u32\<close>.
\<close>

definition peek32 :: "bool \<Rightarrow> u8 list \<Rightarrow> nat \<Rightarrow> u32" where
  "peek32 hostLE data off =
     (let b0 = unat (data ! off); b1 = unat (data ! (off + 1));
          b2 = unat (data ! (off + 2)); b3 = unat (data ! (off + 3))
      in of_nat (if hostLE then b0 + 256 * b1 + 65536 * b2 + 16777216 * b3
                 else 16777216 * b0 + 65536 * b1 + 256 * b2 + b3))"

definition load32 :: "bool \<Rightarrow> u8 list \<Rightarrow> nat \<Rightarrow> u32 option" where
  "load32 hostLE data off = (if off + 4 \<le> length data then Some (peek32 hostLE data off) else None)"

definition bswap32 :: "u32 \<Rightarrow> u32" where
  "bswap32 w =
     (let n = unat w
      in of_nat (16777216 * (n mod 256) + 65536 * (n div 256 mod 256)
                 + 256 * (n div 65536 mod 256) + n div 16777216 mod 256))"

text \<open>\<^verbatim>\<open>isLittleEndian ? __builtin_bswap32(p[0]) : p[0]\<close>\<close>

definition read_token :: "bool \<Rightarrow> bool \<Rightarrow> u8 list \<Rightarrow> nat \<Rightarrow> u32 option" where
  "read_token hostLE isLittleEndian data off =
     map_option (\<lambda>w. if isLittleEndian then bswap32 w else w) (load32 hostLE data off)"

definition byte_char :: "u8 \<Rightarrow> char" where
  "byte_char b = char_of (unat b)"

text \<open>The NUL-terminated string that starts at an offset, as \<^verbatim>\<open>strlen\<close> and the conversion
  to \<^verbatim>\<open>std::string\<close> read it.\<close>

definition cstring_at :: "u8 list \<Rightarrow> nat \<Rightarrow> string option" where
  "cstring_at data off =
     (let rest = drop off data
      in if 0 \<in> set rest then Some (map byte_char (takeWhile (\<lambda>b. b \<noteq> 0) rest)) else None)"

subsection \<open>\<^verbatim>\<open>parseDTBProperty\<close>\<close>

text \<open>
  The value of a property from its declared length and the bytes at \<^verbatim>\<open>propValue\<close>.  The test
  \<^verbatim>\<open>c >= 32 && c <= 126\<close> is on a \<^verbatim>\<open>char\<close>: a byte above 127 fails it whether \<^verbatim>\<open>char\<close> is signed
  or not.
\<close>

definition printable :: "u8 \<Rightarrow> bool" where
  "printable b = (32 \<le> unat b \<and> unat b \<le> 126)"

definition dtbPropertyValue :: "u32 \<Rightarrow> u8 list \<Rightarrow> PropertyValue" where
  "dtbPropertyValue len propValue =
     (if len = 0 then StringV []
      else if len > 0 \<and> propValue ! (unat len - 1) = 0 then
        (let strValue = take (unat len - 1) propValue in
         if list_all printable strValue then StringV (map byte_char strValue)
         else BinaryV (take (unat len) propValue))
      else BinaryV (take (unat len) propValue))"

text \<open>The result is the property and the new value of \<^verbatim>\<open>nextOffset\<close>, or the exception.\<close>

definition parseDTBProperty ::
  "bool \<Rightarrow> u8 list \<Rightarrow> nat \<Rightarrow> nat \<Rightarrow> bool \<Rightarrow> error + (DeviceTreeProperty \<times> nat)" where
  "parseDTBProperty hostLE data offset stringsOffset isLittleEndian =
     (case (read_token hostLE isLittleEndian data (offset + 4),
            read_token hostLE isLittleEndian data (offset + 8)) of
        (Some len, Some nameoff) \<Rightarrow>
          if nameoff \<ge> 0x1000000 then Inl (RuntimeError ''Invalid property name offset'')
          else
            (case cstring_at data (stringsOffset + unat nameoff) of
               None \<Rightarrow> Inl OutOfBounds
             | Some propName \<Rightarrow>
                 if length propName = 0 then Inl (RuntimeError ''Empty property name'')
                 else if offset + 12 + unat len > length data then Inl OutOfBounds
                 else
                   (let propValue = drop (offset + 12) data;
                        v = dtbPropertyValue len propValue
                    in Inr (\<lparr>pname = propName, pvalue = v\<rparr>,
                            offset + 12 + unat (((len + 3) div 4) * 4))))
      | _ \<Rightarrow> Inl OutOfBounds)"

subsection \<open>\<^verbatim>\<open>parseDTBNode\<close>\<close>

text \<open>
  \<^verbatim>\<open>parseDTBNode\<close> takes \<^verbatim>\<open>offset\<close> by value and \<^verbatim>\<open>nextOffset\<close> by reference: the model takes the
  value \<^verbatim>\<open>nextOffset\<close> has on entry and returns the one it has on exit.  The loop compares
  \<^verbatim>\<open>currentOffset\<close> with \<^verbatim>\<open>nextOffset\<close>, which nothing assigns before the loop is over.  In the
  calls \<^verbatim>\<open>parseDTBProperty(data, currentOffset, currentOffset, ...)\<close> and
  \<^verbatim>\<open>parseDTBNode(data, currentOffset, currentOffset, ...)\<close> of the loop, the reference is to
  \<^verbatim>\<open>currentOffset\<close> itself.

  The recursion is through the result of the recursive call, so the functions count
  their calls and iterations down from \<open>fuel\<close>; \<open>None\<close> is for fuel that did not suffice.
  A result \<open>Some (Inl e)\<close> is an exception, \<open>Some (Inr (None, _))\<close> is \<^verbatim>\<open>nullptr\<close>.
\<close>

fun parseDTBNode ::
    "nat \<Rightarrow> bool \<Rightarrow> u8 list \<Rightarrow> nat \<Rightarrow> nat \<Rightarrow> nat \<Rightarrow> bool
      \<Rightarrow> (error + DeviceTreeNode option \<times> nat) option"
  and parseDTBNode_loop ::
    "nat \<Rightarrow> bool \<Rightarrow> u8 list \<Rightarrow> DeviceTreeNode \<Rightarrow> nat \<Rightarrow> nat \<Rightarrow> nat \<Rightarrow> bool
      \<Rightarrow> (error + DeviceTreeNode \<times> nat) option"
where
  "parseDTBNode 0 hostLE data offset nextOffset stringsOffset isLittleEndian = None"
| "parseDTBNode (Suc fuel) hostLE data offset nextOffset stringsOffset isLittleEndian =
     (case read_token hostLE isLittleEndian data offset of
        None \<Rightarrow> Some (Inl OutOfBounds)
      | Some token \<Rightarrow>
          if token = 0x00000001 then
            (case cstring_at data (offset + 4) of
               None \<Rightarrow> Some (Inl OutOfBounds)
             | Some nodeName \<Rightarrow>
                 (let nm = (if nodeName = [] \<or> nodeName = ''/'' then ''/'' else nodeName);
                      node = Node nm [] [];
                      nameLen = length nodeName + 1;
                      nameWords = (nameLen + 3) div 4;
                      currentOffset = offset + 4 + nameWords * 4
                  in case parseDTBNode_loop fuel hostLE data node currentOffset nextOffset
                            stringsOffset isLittleEndian of
                       None \<Rightarrow> None
                     | Some (Inl e) \<Rightarrow> Some (Inl e)
                     | Some (Inr (node', currentOffset')) \<Rightarrow>
                         Some (Inr (Some node', currentOffset'))))
          else Some (Inr (None, nextOffset)))"
| "parseDTBNode_loop 0 hostLE data node currentOffset nextOffset stringsOffset isLittleEndian
     = None"
| "parseDTBNode_loop (Suc fuel) hostLE data node currentOffset nextOffset stringsOffset
       isLittleEndian =
     (if currentOffset < nextOffset then
        (case read_token hostLE isLittleEndian data currentOffset of
           None \<Rightarrow> Some (Inl OutOfBounds)
         | Some currentTokenValue \<Rightarrow>
             if currentTokenValue = 0x00000002 then
               (case parseDTBProperty hostLE data currentOffset stringsOffset isLittleEndian of
                  Inl e \<Rightarrow> Some (Inl e)
                | Inr (prop, currentOffset') \<Rightarrow>
                    parseDTBNode_loop fuel hostLE data (addProperty prop node) currentOffset'
                      nextOffset stringsOffset isLittleEndian)
             else if currentTokenValue = 0x00000001 then
               (case parseDTBNode fuel hostLE data currentOffset currentOffset stringsOffset
                       isLittleEndian of
                  None \<Rightarrow> None
                | Some (Inl e) \<Rightarrow> Some (Inl e)
                | Some (Inr (Some childNode, currentOffset')) \<Rightarrow>
                    parseDTBNode_loop fuel hostLE data (addChild childNode node) currentOffset'
                      nextOffset stringsOffset isLittleEndian
                | Some (Inr (None, currentOffset')) \<Rightarrow>
                    parseDTBNode_loop fuel hostLE data node currentOffset' nextOffset
                      stringsOffset isLittleEndian)
             else if currentTokenValue = 0x00000003 then Some (Inr (node, currentOffset + 4))
             else if currentTokenValue = 0x00000009 then Some (Inr (node, currentOffset))
             else parseDTBNode_loop fuel hostLE data node (currentOffset + 4) nextOffset
                    stringsOffset isLittleEndian)
      else Some (Inr (node, currentOffset)))"

subsection \<open>\<^verbatim>\<open>parseDTBFile\<close> and \<^verbatim>\<open>parse\<close>\<close>

text \<open>
  The header is read in the byte order of the machine; with the byte-swapped magic all
  other fields are swapped.  The sums \<^verbatim>\<open>off_dt_struct + size_dt_struct\<close> and
  \<^verbatim>\<open>off_dt_strings + size_dt_strings\<close> are \<^verbatim>\<open>uint32_t\<close> sums.  The first ten words are inside
  a buffer of 40 bytes or more.
\<close>

definition parseDTBFile ::
  "nat \<Rightarrow> bool \<Rightarrow> u8 list \<Rightarrow> DeviceTree \<Rightarrow> (error + bool \<times> DeviceTree) option" where
  "parseDTBFile fuel hostLE buffer tree =
     (let fileSize = length buffer in
      if fileSize < 40 then Some (Inl (RuntimeError ''File too small to be a valid DTB''))
      else
        (let header = (\<lambda>i. peek32 hostLE buffer (4 * i));
             magic = header 0
         in if magic \<noteq> 0xd00dfeed \<and> magic \<noteq> 0xedfe0dd0
            then Some (Inl (RuntimeError ''Invalid DTB magic number: 0x''))
            else
              (let isLittleEndian = (magic \<noteq> 0xd00dfeed);
                   field = (\<lambda>i. if isLittleEndian then bswap32 (header i) else header i);
                   totalsize = field 1;
                   off_dt_struct = field 2;
                   off_dt_strings = field 3;
                   off_mem_rsvmap = field 4;
                   version = field 5;
                   size_dt_strings = field 8;
                   size_dt_struct = field 9
               in if unat totalsize \<noteq> fileSize
                  then Some (Inl (RuntimeError ''File size mismatch: expected ''))
                  else if unat off_dt_struct \<ge> fileSize \<or> unat off_dt_strings \<ge> fileSize
                          \<or> unat off_mem_rsvmap \<ge> fileSize
                  then Some (Inl (RuntimeError ''Invalid offset in DTB header''))
                  else if unat (off_dt_struct + size_dt_struct) > fileSize
                  then Some (Inl (RuntimeError ''Structure block extends beyond file''))
                  else if unat (off_dt_strings + size_dt_strings) > fileSize
                  then Some (Inl (RuntimeError ''Strings block extends beyond file''))
                  else if version < 16
                  then Some (Inl (RuntimeError ''DTB version too old: ''))
                  else
                    (let structOffset = unat off_dt_struct;
                         nextOffset = structOffset
                     in case parseDTBNode fuel hostLE buffer structOffset nextOffset
                               (unat off_dt_strings) isLittleEndian of
                          None \<Rightarrow> None
                        | Some (Inl e) \<Rightarrow> Some (Inl e)
                        | Some (Inr (Some rootNode, _)) \<Rightarrow>
                            Some (Inr (True, tree\<lparr>root := Some rootNode\<rparr>))
                        | Some (Inr (None, _)) \<Rightarrow> Some (Inr (False, tree))))))"

text \<open>\<^verbatim>\<open>parse\<close> turns a failure and every exception into \<^verbatim>\<open>nullptr\<close>.\<close>

definition DTBParser_parse ::
  "nat \<Rightarrow> bool \<Rightarrow> string \<Rightarrow> u8 list \<Rightarrow> DeviceTree option option" where
  "DTBParser_parse fuel hostLE filename buffer =
     (case parseDTBFile fuel hostLE buffer DeviceTree_new of
        None \<Rightarrow> None
      | Some (Inr (True, tree)) \<Rightarrow> Some (Some (tree\<lparr>sourceFile := filename\<rparr>))
      | Some _ \<Rightarrow> Some None)"


subsection \<open>A sample blob\<close>

text \<open>
  A blob of 102 bytes in the layout of the format, all fields big-endian: the header
  (version 17), an empty memory reservation map at offset 40, the structure block at
  offset 56 and the strings block, holding the name \<^verbatim>\<open>p\<close>, at offset 100.  The structure
  block is: \<^verbatim>\<open>BEGIN_NODE\<close> with the empty name, \<^verbatim>\<open>PROP\<close> of length 4 and name offset 0 with the
  value \<^verbatim>\<open>abc\<close> and its NUL, \<^verbatim>\<open>BEGIN_NODE\<close> with the name \<^verbatim>\<open>c\<close>, \<^verbatim>\<open>END_NODE\<close>, \<^verbatim>\<open>END_NODE\<close>, \<^verbatim>\<open>END\<close>:
  a root with the property \<^verbatim>\<open>p = "abc"\<close> and the child \<^verbatim>\<open>c\<close>.
\<close>

definition example_dtb :: "u8 list" where
  "example_dtb =
     [0xd0, 0x0d, 0xfe, 0xed,  0, 0, 0, 0x66,  0, 0, 0, 0x38,  0, 0, 0, 0x64,
      0, 0, 0, 0x28,  0, 0, 0, 0x11,  0, 0, 0, 0x10,  0, 0, 0, 0,
      0, 0, 0, 0x02,  0, 0, 0, 0x2c,
      0, 0, 0, 0,  0, 0, 0, 0,  0, 0, 0, 0,  0, 0, 0, 0,
      0, 0, 0, 0x01,  0, 0, 0, 0,
      0, 0, 0, 0x02,  0, 0, 0, 0x04,  0, 0, 0, 0,  0x61, 0x62, 0x63, 0,
      0, 0, 0, 0x01,  0x63, 0, 0, 0,
      0, 0, 0, 0x03,
      0, 0, 0, 0x03,
      0, 0, 0, 0x09,
      0x70, 0]"

text \<open>
  Four \<^verbatim>\<open>PROP\<close> records, big-endian, at the offsets 0, 12, 28 and 44, all with the name at
  offset 0 of a strings block that starts at offset 60 and holds \<^verbatim>\<open>p\<close>: a value of length
  zero; the four bytes \<^verbatim>\<open>abc\<close> and NUL; the three bytes 1, 2, 3; the two bytes 1 and NUL.
\<close>

definition example_props :: "u8 list" where
  "example_props =
     [0, 0, 0, 0x02,  0, 0, 0, 0,  0, 0, 0, 0,
      0, 0, 0, 0x02,  0, 0, 0, 0x04,  0, 0, 0, 0,  0x61, 0x62, 0x63, 0,
      0, 0, 0, 0x02,  0, 0, 0, 0x03,  0, 0, 0, 0,  0x01, 0x02, 0x03, 0,
      0, 0, 0, 0x02,  0, 0, 0, 0x02,  0, 0, 0, 0,  0x01, 0, 0, 0,
      0x70, 0]"

section \<open>Paths (\<^verbatim>\<open>getFullPath\<close>, \<^verbatim>\<open>findNodeByPath\<close>, DeviceTree.cpp)\<close>

text \<open>
  A node of a tree is given by the root and its position.  \<^verbatim>\<open>getParent()\<close> of the node at
  a position is the node one step up; the root has none.
\<close>

definition getParent :: "position \<Rightarrow> position option" where
  "getParent pos = (if pos = [] then None else Some (butlast pos))"

text \<open>The first loop of \<^verbatim>\<open>getFullPath\<close> walks up to the root and puts each name in front
  of \<^verbatim>\<open>pathComponents\<close>.  A position outside the tree is not a node: \<open>None\<close>.\<close>

function pathComponents :: "DeviceTreeNode \<Rightarrow> position option \<Rightarrow> string list
    \<Rightarrow> string list option" where
  "pathComponents rt None comps = Some comps"
| "pathComponents rt (Some pos) comps =
     (case node_at rt pos of
        None \<Rightarrow> None
      | Some current \<Rightarrow> pathComponents rt (getParent pos) (name current # comps))"
  by pat_completeness auto
termination
  by (relation "measure (\<lambda>(rt, cur, comps). case cur of None \<Rightarrow> 0 | Some pos \<Rightarrow> Suc (length pos))")
    (auto simp: getParent_def)

declare pathComponents.simps [simp del]

text \<open>The second loop builds the path from the components.\<close>

definition joinComponents :: "string list \<Rightarrow> string" where
  "joinComponents comps =
     foldl (\<lambda>pth component. if component \<noteq> ''/'' then pth @ ''/'' @ component else ''/'')
       [] comps"

definition getFullPath :: "DeviceTreeNode \<Rightarrow> position \<Rightarrow> string option" where
  "getFullPath rt pos = map_option joinComponents (pathComponents rt (Some pos) [])"

text \<open>The index of the first element that satisfies a test: the \<^verbatim>\<open>for\<close> loop with
  \<^verbatim>\<open>break\<close> over the children in \<^verbatim>\<open>findNodeByPath\<close>.\<close>

fun find_first :: "('a \<Rightarrow> bool) \<Rightarrow> 'a list \<Rightarrow> nat option" where
  "find_first P [] = None"
| "find_first P (x # xs) = (if P x then Some 0 else map_option Suc (find_first P xs))"

definition find_child :: "DeviceTreeNode \<Rightarrow> position \<Rightarrow> string \<Rightarrow> position option" where
  "find_child rt current component =
     (case node_at rt current of
        None \<Rightarrow> None
      | Some n \<Rightarrow> map_option (\<lambda>i. current @ [i])
                    (find_first (\<lambda>child. name child = component) (children n)))"

function findNodeByPath_loop :: "DeviceTreeNode \<Rightarrow> string \<Rightarrow> position \<Rightarrow> position option"
where
  "findNodeByPath_loop rt pathStream current =
     (case getline CHR ''/'' pathStream of
        None \<Rightarrow> Some current
      | Some (component, rest) \<Rightarrow>
          if component = [] then findNodeByPath_loop rt rest current
          else
            (case find_child rt current component of
               None \<Rightarrow> None
             | Some child \<Rightarrow> findNodeByPath_loop rt rest child))"
  by pat_completeness auto
termination
  by (relation "measure (\<lambda>(rt, pathStream, current). length pathStream)")
    (auto dest: getline_shorter)

declare findNodeByPath_loop.simps [simp del]

text \<open>\<^verbatim>\<open>DeviceTreeNode::findNodeByPath\<close> called on the root: the node found, as a position, or
  \<open>None\<close> for \<^verbatim>\<open>nullptr\<close>.\<close>

definition findNodeByPath :: "DeviceTreeNode \<Rightarrow> string \<Rightarrow> position option" where
  "findNodeByPath rt pth =
     (if pth = [] \<or> pth = ''/'' then Some []
      else
        (let currentPath = (if str_at pth 0 = CHR ''/'' then substr pth 1 (length pth) else pth)
         in findNodeByPath_loop rt currentPath []))"


text \<open>
  For the statement of the round trip: the names met on the way from a node down to a
  position (the node's own name first), the names of the children alone, and the
  positions that a path can address: at every step the child has a name that is not
  empty and has no \<^verbatim>\<open>/\<close> in it, and is the first child of its parent with that name.
\<close>

fun names_along :: "DeviceTreeNode \<Rightarrow> position \<Rightarrow> string list" where
  "names_along n [] = [name n]"
| "names_along n (i # is) = name n # names_along (children n ! i) is"

fun child_names :: "DeviceTreeNode \<Rightarrow> position \<Rightarrow> string list" where
  "child_names n [] = []"
| "child_names n (i # is) = name (children n ! i) # child_names (children n ! i) is"

fun addressable :: "DeviceTreeNode \<Rightarrow> position \<Rightarrow> bool" where
  "addressable n [] = True"
| "addressable n (i # is) =
     (i < length (children n)
      \<and> name (children n ! i) \<noteq> []
      \<and> CHR ''/'' \<notin> set (name (children n ! i))
      \<and> find_first (\<lambda>c. name c = name (children n ! i)) (children n) = Some i
      \<and> addressable (children n ! i) is)"

section \<open>Properties of the diff engine\<close>

subsection \<open>The container keeps its keys in strictly ascending order\<close>

lemma generateDiff_new:
  "fst (generateDiff (DeviceTreeDiff_new (Some b) (Some ov))) = compareNodes (root b) (root ov) ''/''"
  by (simp add: isValid_def DeviceTreeDiff_new_def generateDiff_def generateDiffInternal_def)

lemma map_assign_keys_list: "set (map fst (map_assign k v m)) = insert k (set (map fst m))"
  by (induction m rule: map_assign.induct) (simp_all add: insert_commute)

lemma map_assign_keys: "fst ` set (map_assign k v m) = insert k (fst ` set m)"
  using map_assign_keys_list [of k v m] by simp

lemma map_assign_sorted:
  "sorted_wrt (<) (map fst m) \<Longrightarrow> sorted_wrt (<) (map fst (map_assign k v m))"
proof (induction m)
  case Nil
  then show ?case by simp
next
  case (Cons e m)
  obtain k' v' where e: "e = (k', v')" by (cases e)
  from Cons.prems have above: "\<forall>x \<in> fst ` set m. k' < x" and sm: "sorted_wrt (<) (map fst m)"
    by (auto simp: e)
  show ?case
  proof (cases "k < k'")
    case True
    with Cons.prems above show ?thesis by (auto simp: e)
  next
    case False
    show ?thesis
    proof (cases "k = k'")
      case True
      with Cons.prems show ?thesis by (simp add: e)
    next
      case neq: False
      with False have "k' < k" by simp
      with above have "\<forall>x \<in> fst ` set (map_assign k v m). k' < x"
        by (simp add: map_assign_keys)
      with False neq Cons.IH [OF sm] show ?thesis by (simp add: e)
    qed
  qed
qed

lemma map_fill_sorted:
  "sorted_wrt (<) (map fst m) \<Longrightarrow> sorted_wrt (<) (map fst (map_fill key xs m))"
  by (induction xs arbitrary: m) (simp_all add: map_assign_sorted)

lemma map_fill_keys: "fst ` set (map_fill key xs m) = key ` set xs \<union> fst ` set m"
  by (induction xs arbitrary: m) (auto simp: map_assign_keys)

lemma map_find_entry:
  assumes "sorted_wrt (<) (map fst m)" and "(k, v) \<in> set m"
  shows "map_find k m = Some v"
proof -
  from assms(1) have "distinct (map fst m)"
    by (simp add: strict_sorted_iff)
  with assms(2) show ?thesis
    unfolding map_find_def by simp
qed

lemma map_find_None: "map_find k m = None \<longleftrightarrow> k \<notin> fst ` set m"
  by (simp add: map_find_def map_of_eq_None_iff)

lemma map_fill_find_entry: "e \<in> set (map_fill key xs []) \<Longrightarrow> map_find (fst e) (map_fill key xs []) = Some (snd e)"
  using map_find_entry [of "map_fill key xs []" "fst e" "snd e"] map_fill_sorted [of "[]" key xs]
  by simp

lemma propertiesEqual_refl: "propertiesEqual p p"
  by (cases "pvalue p")
    (simp_all add: propertiesEqual_def isString_def isBinary_def isCells_def isCells64_def)

lemma compareProperties_same: "compareProperties n n pth = []"
  by (simp add: compareProperties_def Let_def map_fill_find_entry propertiesEqual_refl)

lemma compareNodes_same: "compareNodes (Some n) (Some n) pth = []"
proof (induction n arbitrary: pth)
  case (Node nm ps cs)
  have "compareNodes (Some (snd e)) (Some (snd e)) (pth @ ''/'' @ fst e) = []"
    if "e \<in> set (map_fill name cs [])" for e
  proof -
    from that have "snd e \<in> set cs"
      using map_fill_values [of "fst e" "snd e" name cs "[]"] by simp
    then show ?thesis by (rule Node.IH)
  qed
  then show ?case
    by (simp add: compareProperties_same Let_def map_fill_find_entry)
qed


subsection \<open>The diff of sample trees, of a tree with itself and of a missing tree\<close>

lemma compareNodes_added_subtree:
  "compareNodes None (Some n) pth = map addedNodeEntry (subtree_paths pth n)"
proof (induction n arbitrary: pth)
  case (Node nm ps cs)
  have h: "map (\<lambda>child. compareNodes None (Some child) (pth @ ''/'' @ name child)) cs
      = map (\<lambda>c. map addedNodeEntry (subtree_paths (pth @ ''/'' @ name c) c)) cs"
    by (rule map_cong [OF refl]) (rule Node.IH)
  have "compareNodes None (Some (Node nm ps cs)) pth =
      [(newEntry Added)\<lparr>path := pth, description := ''Node added: '' @ nm\<rparr>]
      @ concat (map (\<lambda>child. compareNodes None (Some child) (pth @ ''/'' @ name child)) cs)"
    by (rule compareNodes_Node(1))
  also have "\<dots> = addedNodeEntry (pth, nm)
      # concat (map (\<lambda>c. map addedNodeEntry (subtree_paths (pth @ ''/'' @ name c) c)) cs)"
    unfolding h by (simp add: addedNodeEntry_def newEntry_def)
  also have "\<dots> = map addedNodeEntry (subtree_paths pth (Node nm ps cs))"
    by (simp add: map_concat comp_def)
  finally show ?case .
qed

text \<open>
  C2, as the code has it.  Base \<^verbatim>\<open>/ { }\<close> against overlay \<^verbatim>\<open>/ { child@0 { x = <1>; }; }\<close>
  gives exactly one entry: the node-level \<open>Added\<close> entry (empty property name) for the
  child.  Its path is the path of the parent, \<^verbatim>\<open>"/"\<close>, then \<^verbatim>\<open>"/"\<close>, then the name of the child,
  that is \<^verbatim>\<open>"//child@0"\<close>.  In general, for a node that only the overlay has, whatever it
  holds, the engine emits one node-level \<open>Added\<close> entry for each node of its subtree and
  nothing else: first the node, then its descendants depth-first in the order of the
  children lists, each child under the path of its parent, \<^verbatim>\<open>/\<close> and its name; no entry has a
  property name, so the properties of the added nodes give no entries.  With a child
  \<^verbatim>\<open>child@0\<close> that has the property \<open>x\<close> and the children \<open>z\<close> (with a property) and \<open>a\<close>, in
  this order: \<^verbatim>\<open>//child@0\<close>, then \<^verbatim>\<open>//child@0/z\<close>, then \<^verbatim>\<open>//child@0/a\<close>.
\<close>

theorem C2_added_node_entries:
  "fst (generateDiff (DeviceTreeDiff_new
      (Some (mkTree (Node ''/'' [] [])))
      (Some (mkTree (Node ''/'' []
         [Node ''child@0'' [\<lparr>pname = ''x'', pvalue = CellsV [1]\<rparr>] []])))))
   = [\<lparr>type = Added, path = ''//child@0'', propertyName = [], oldValue = [], newValue = [],
       description = ''Node added: child@0''\<rparr>]
   \<and> compareNodes None (Some n) pth = map addedNodeEntry (subtree_paths pth n)
   \<and> fst (generateDiff (DeviceTreeDiff_new
      (Some (mkTree (Node ''/'' [] [])))
      (Some (mkTree (Node ''/'' []
         [Node ''child@0'' [\<lparr>pname = ''x'', pvalue = CellsV [1]\<rparr>]
            [Node ''z'' [\<lparr>pname = ''y'', pvalue = StringV ''s''\<rparr>] [],
             Node ''a'' [] []]])))))
   = [\<lparr>type = Added, path = ''//child@0'', propertyName = [], oldValue = [], newValue = [],
       description = ''Node added: child@0''\<rparr>,
      \<lparr>type = Added, path = ''//child@0/z'', propertyName = [], oldValue = [], newValue = [],
       description = ''Node added: z''\<rparr>,
      \<lparr>type = Added, path = ''//child@0/a'', propertyName = [], oldValue = [], newValue = [],
       description = ''Node added: a''\<rparr>]"
proof (intro conjI)
  show "fst (generateDiff (DeviceTreeDiff_new
      (Some (mkTree (Node ''/'' [] [])))
      (Some (mkTree (Node ''/'' []
         [Node ''child@0'' [\<lparr>pname = ''x'', pvalue = CellsV [1]\<rparr>] []])))))
   = [\<lparr>type = Added, path = ''//child@0'', propertyName = [], oldValue = [], newValue = [],
       description = ''Node added: child@0''\<rparr>]"
    by (simp add: generateDiff_new mkTree_def compareProperties_def map_find_def newEntry_def)
next
  show "compareNodes None (Some n) pth = map addedNodeEntry (subtree_paths pth n)"
    by (rule compareNodes_added_subtree)
next
  show "fst (generateDiff (DeviceTreeDiff_new
      (Some (mkTree (Node ''/'' [] [])))
      (Some (mkTree (Node ''/'' []
         [Node ''child@0'' [\<lparr>pname = ''x'', pvalue = CellsV [1]\<rparr>]
            [Node ''z'' [\<lparr>pname = ''y'', pvalue = StringV ''s''\<rparr>] [],
             Node ''a'' [] []]])))))
   = [\<lparr>type = Added, path = ''//child@0'', propertyName = [], oldValue = [], newValue = [],
       description = ''Node added: child@0''\<rparr>,
      \<lparr>type = Added, path = ''//child@0/z'', propertyName = [], oldValue = [], newValue = [],
       description = ''Node added: z''\<rparr>,
      \<lparr>type = Added, path = ''//child@0/a'', propertyName = [], oldValue = [], newValue = [],
       description = ''Node added: a''\<rparr>]"
    by (simp add: generateDiff_new mkTree_def compareProperties_def map_find_def newEntry_def)
qed

text \<open>C2 as stated fails: the scenario does not give two entries.\<close>

theorem C2_two_entries_counterexample:
  "length (fst (generateDiff (DeviceTreeDiff_new
      (Some (mkTree (Node ''/'' [] [])))
      (Some (mkTree (Node ''/'' []
         [Node ''child@0'' [\<lparr>pname = ''x'', pvalue = CellsV [1]\<rparr>] []])))))) \<noteq> 2"
  by (simp add: generateDiff_new mkTree_def compareProperties_def map_find_def newEntry_def)

text \<open>
  C3.  The diff of a tree with itself is empty: no entry for a node or a property at any
  depth, whatever the tree holds (also a tree without a root).
\<close>

theorem C3_diff_self_empty:
  "fst (generateDiff (DeviceTreeDiff_new (Some t) (Some t))) = []"
  by (cases "root t") (simp_all add: generateDiff_new compareNodes_same compareNodes.simps(1))

text \<open>
  C4.  When the base tree or the overlay tree is null, \<^verbatim>\<open>isValid\<close> is false and
  \<^verbatim>\<open>generateDiff\<close> returns the empty list and leaves the engine as it was, so every later
  call returns the empty list as well.  \<^verbatim>\<open>generateDiff\<close> has no failure result: nothing on
  this path throws.
\<close>

theorem C4_null_tree_empty_diff:
  "base = None \<or> overlay = None \<Longrightarrow>
     \<not> isValid (DeviceTreeDiff_new base overlay)
     \<and> generateDiff (DeviceTreeDiff_new base overlay) = ([], DeviceTreeDiff_new base overlay)"
  by (auto simp: isValid_def DeviceTreeDiff_new_def generateDiff_def generateDiffInternal_def)

theorem C4_null_tree_empty_diff_witness:
  "(None = (None :: DeviceTree option) \<or> Some (mkTree (Node ''/'' [] [])) = None)
   \<and> \<not> isValid (DeviceTreeDiff_new None (Some (mkTree (Node ''/'' [] []))))
   \<and> generateDiff (DeviceTreeDiff_new None (Some (mkTree (Node ''/'' [] []))))
       = ([], DeviceTreeDiff_new None (Some (mkTree (Node ''/'' [] []))))"
  using C4_null_tree_empty_diff [of None "Some (mkTree (Node ''/'' [] []))"] by simp

text \<open>
  C6, as the code has it.  Base \<^verbatim>\<open>/ { a = "1"; }\<close> against overlay \<^verbatim>\<open>/ { a = "2"; }\<close> gives
  exactly one entry, \<open>Modified\<close>, at path \<^verbatim>\<open>"/"\<close>, for the property \<open>a\<close>.  The old and the new
  value are what \<^verbatim>\<open>getValueAsString\<close> returns for a string: the text between double quotes,
  three characters each.
\<close>

theorem C6_modified_string_entry:
  "fst (generateDiff (DeviceTreeDiff_new
      (Some (mkTree (Node ''/'' [\<lparr>pname = ''a'', pvalue = StringV ''1''\<rparr>] [])))
      (Some (mkTree (Node ''/'' [\<lparr>pname = ''a'', pvalue = StringV ''2''\<rparr>] [])))))
   = [\<lparr>type = Modified, path = ''/'', propertyName = ''a'',
       oldValue = [CHR 0x22, CHR ''1'', CHR 0x22], newValue = [CHR 0x22, CHR ''2'', CHR 0x22],
       description = ''Property modified: a''\<rparr>]"
  by (simp add: generateDiff_new mkTree_def compareProperties_def map_find_def newEntry_def
      propertiesEqual_def isString_def getValueAsString_def propertyValueToString_def)

text \<open>C6 as stated fails: the old value of the entry is not the bare text \<^verbatim>\<open>1\<close>.\<close>

theorem C6_bare_text_counterexample:
  "map oldValue (fst (generateDiff (DeviceTreeDiff_new
      (Some (mkTree (Node ''/'' [\<lparr>pname = ''a'', pvalue = StringV ''1''\<rparr>] [])))
      (Some (mkTree (Node ''/'' [\<lparr>pname = ''a'', pvalue = StringV ''2''\<rparr>] []))))))
   \<noteq> [''1'']"
  by (simp add: generateDiff_new mkTree_def compareProperties_def map_find_def newEntry_def
      propertiesEqual_def isString_def getValueAsString_def propertyValueToString_def)


subsection \<open>The order of the children\<close>

lemma map_of_assign:
  "map_of (map_assign k v m) k' = (if k' = k then Some v else map_of m k')"
  by (induction m) auto

lemma map_of_fill:
  "map_of (map_fill key xs m) k =
     (let named = filter (\<lambda>x. key x = k) xs in if named = [] then map_of m k else Some (last named))"
  by (induction xs arbitrary: m) (auto simp: map_of_assign Let_def)

lemma map_find_children: "map_find k (map_fill name cs []) = child_named k cs"
  by (simp add: map_find_def map_of_fill child_named_def Let_def)

lemma map_fill_key_list:
  "map fst (map_fill name cs []) = sorted_list_of_set (name ` set cs)"
proof -
  have "sorted_wrt (<) (map fst (map_fill name cs []))"
    by (rule map_fill_sorted) simp
  moreover have "set (map fst (map_fill name cs [])) = name ` set cs"
    using map_fill_keys [of name cs "[]"] by simp
  ultimately show ?thesis
    by (metis finite_imageI finite_set sorted_list_of_set.idem_if_sorted_distinct strict_sorted_iff)
qed

lemma concat_map_if: "concat (map (\<lambda>x. if P x then f x else []) xs) = concat (map f (filter P xs))"
  by (induction xs) simp_all

lemma overlay_pass:
  "concat (map (\<lambda>pair.
      case map_find (fst pair) bm of
        None \<Rightarrow> compareNodes None (Some (snd pair)) (pth @ ''/'' @ fst pair)
      | Some it \<Rightarrow> compareNodes (Some it) (Some (snd pair)) (pth @ ''/'' @ fst pair))
      (map_fill name cs []))
   = concat (map (\<lambda>k. compareNodes (map_find k bm) (child_named k cs) (pth @ ''/'' @ k))
       (sorted_list_of_set (name ` set cs)))"
proof -
  have "map (\<lambda>pair.
      case map_find (fst pair) bm of
        None \<Rightarrow> compareNodes None (Some (snd pair)) (pth @ ''/'' @ fst pair)
      | Some it \<Rightarrow> compareNodes (Some it) (Some (snd pair)) (pth @ ''/'' @ fst pair))
      (map_fill name cs [])
    = map (\<lambda>pair. compareNodes (map_find (fst pair) bm) (child_named (fst pair) cs)
        (pth @ ''/'' @ fst pair)) (map_fill name cs [])"
  proof (rule map_cong [OF refl])
    fix pair assume "pair \<in> set (map_fill name cs [])"
    then have "child_named (fst pair) cs = Some (snd pair)"
      using map_fill_find_entry [of pair name cs] by (simp add: map_find_children)
    then show "(case map_find (fst pair) bm of
        None \<Rightarrow> compareNodes None (Some (snd pair)) (pth @ ''/'' @ fst pair)
      | Some it \<Rightarrow> compareNodes (Some it) (Some (snd pair)) (pth @ ''/'' @ fst pair))
      = compareNodes (map_find (fst pair) bm) (child_named (fst pair) cs) (pth @ ''/'' @ fst pair)"
      by (simp split: option.split)
  qed
  also have "\<dots> = map (\<lambda>k. compareNodes (map_find k bm) (child_named k cs) (pth @ ''/'' @ k))
       (map fst (map_fill name cs []))"
    by (simp add: comp_def)
  finally show ?thesis by (simp only: map_fill_key_list)
qed

lemma base_pass:
  "concat (map (\<lambda>pair.
      if map_find (fst pair) (map_fill name cs' []) = None
      then compareNodes (Some (snd pair)) None (pth @ ''/'' @ fst pair) else [])
      (map_fill name cs []))
   = concat (map (\<lambda>k. compareNodes (child_named k cs) None (pth @ ''/'' @ k))
       (filter (\<lambda>k. k \<notin> name ` set cs') (sorted_list_of_set (name ` set cs))))"
proof -
  have "map (\<lambda>pair.
      if map_find (fst pair) (map_fill name cs' []) = None
      then compareNodes (Some (snd pair)) None (pth @ ''/'' @ fst pair) else [])
      (map_fill name cs [])
    = map (\<lambda>pair. if fst pair \<notin> name ` set cs'
        then compareNodes (child_named (fst pair) cs) None (pth @ ''/'' @ fst pair) else [])
        (map_fill name cs [])"
  proof (rule map_cong [OF refl])
    fix pair assume "pair \<in> set (map_fill name cs [])"
    then have "child_named (fst pair) cs = Some (snd pair)"
      using map_fill_find_entry [of pair name cs] by (simp add: map_find_children)
    moreover have "map_find (fst pair) (map_fill name cs' []) = None
        \<longleftrightarrow> fst pair \<notin> name ` set cs'"
      by (simp add: map_find_None map_fill_keys)
    ultimately show "(if map_find (fst pair) (map_fill name cs' []) = None
      then compareNodes (Some (snd pair)) None (pth @ ''/'' @ fst pair) else [])
      = (if fst pair \<notin> name ` set cs'
        then compareNodes (child_named (fst pair) cs) None (pth @ ''/'' @ fst pair) else [])"
      by simp
  qed
  also have "\<dots> = map (\<lambda>k. if k \<notin> name ` set cs'
        then compareNodes (child_named k cs) None (pth @ ''/'' @ k) else [])
        (map fst (map_fill name cs []))"
    by (simp add: comp_def)
  finally show ?thesis by (simp only: map_fill_key_list concat_map_if)
qed


text \<open>
  C7.  With both nodes present, the entries for the children follow those for the
  properties in two passes.  The first pass takes the names of the children of the overlay
  node in ascending lexicographic order (\<open>sorted_list_of_set\<close> of the set of names) and
  compares the overlay child of each name with the base child of that name, if there is
  one; the second pass takes, again in ascending order, the names of the children of the
  base node that no overlay child has.  The position of a child in \<^verbatim>\<open>children_\<close> plays no
  part.  For base children \<open>b, a\<close> and overlay children \<open>a, c\<close>, whatever they hold: the
  comparison of the two \<open>a\<close>, then \<open>c\<close> as added, then \<open>b\<close> as removed.
\<close>

theorem C7_children_in_lexicographic_order:
  "compareNodes (Some b) (Some ov) pth =
     compareProperties b ov pth
     @ concat (map (\<lambda>k. compareNodes (child_named k (children b)) (child_named k (children ov))
                        (pth @ ''/'' @ k))
         (sorted_list_of_set (name ` set (children ov))))
     @ concat (map (\<lambda>k. compareNodes (child_named k (children b)) None (pth @ ''/'' @ k))
         (filter (\<lambda>k. k \<notin> name ` set (children ov))
            (sorted_list_of_set (name ` set (children b)))))
   \<and> compareNodes (Some (Node n ps [Node ''b'' pb cb, Node ''a'' pa ca]))
                  (Some (Node n' ps' [Node ''a'' pa' ca', Node ''c'' pc cc])) pth' =
     compareProperties (Node n ps [Node ''b'' pb cb, Node ''a'' pa ca])
                       (Node n' ps' [Node ''a'' pa' ca', Node ''c'' pc cc]) pth'
     @ compareNodes (Some (Node ''a'' pa ca)) (Some (Node ''a'' pa' ca')) (pth' @ ''/a'')
     @ compareNodes None (Some (Node ''c'' pc cc)) (pth' @ ''/c'')
     @ compareNodes (Some (Node ''b'' pb cb)) None (pth' @ ''/b'')"
proof (rule conjI)
  show "compareNodes (Some b) (Some ov) pth =
     compareProperties b ov pth
     @ concat (map (\<lambda>k. compareNodes (child_named k (children b)) (child_named k (children ov))
                        (pth @ ''/'' @ k))
         (sorted_list_of_set (name ` set (children ov))))
     @ concat (map (\<lambda>k. compareNodes (child_named k (children b)) None (pth @ ''/'' @ k))
         (filter (\<lambda>k. k \<notin> name ` set (children ov))
            (sorted_list_of_set (name ` set (children b)))))"
    by (subst compareNodes.simps, simp only: Let_def overlay_pass base_pass)
      (simp only: map_find_children)
next
  show "compareNodes (Some (Node n ps [Node ''b'' pb cb, Node ''a'' pa ca]))
                  (Some (Node n' ps' [Node ''a'' pa' ca', Node ''c'' pc cc])) pth' =
     compareProperties (Node n ps [Node ''b'' pb cb, Node ''a'' pa ca])
                       (Node n' ps' [Node ''a'' pa' ca', Node ''c'' pc cc]) pth'
     @ compareNodes (Some (Node ''a'' pa ca)) (Some (Node ''a'' pa' ca')) (pth' @ ''/a'')
     @ compareNodes None (Some (Node ''c'' pc cc)) (pth' @ ''/c'')
     @ compareNodes (Some (Node ''b'' pb cb)) None (pth' @ ''/b'')"
    by (subst compareNodes.simps)
      (simp add: map_find_def del: compareNodes_Node compareNodes_Node_both)
qed


section \<open>Properties of the text decoder\<close>

lemmas dts_defs = getline_def newline_def tab_def str_contains_def str_at_def is_blank_def
  erase_leading_def erase_trailing_def substr_def size_sub_def is_skipped_def
  parseDTSProperty_def parseDTSValue_def dtsPropertyValue_def child_count_def
  addProperty_def removeProperty_def addChild_def

lemma getline_line: "d \<notin> set l \<Longrightarrow> getline d (l @ d # rest) = Some (l, rest)"
proof -
  assume "d \<notin> set l"
  then have all: "\<forall>c \<in> set l. c \<noteq> d" by auto
  have "takeWhile (\<lambda>c. c \<noteq> d) (l @ d # rest) = l"
    using all by (induction l) simp_all
  moreover have "dropWhile (\<lambda>c. c \<noteq> d) (l @ d # rest) = d # rest"
    using all by (induction l) simp_all
  ultimately show ?thesis by (simp add: getline_def)
qed


lemma parseDTSNode_single_line: "parseDTSNode sample_single_line = (Some (Node ''/'' [] []), [])"
  apply (subst parseDTSNode.simps)
  apply (simp add: sample_single_line_def dts_defs)
  apply (subst parseDTSNode_body.simps)
  apply (simp add: dts_defs)
  done

lemma parseDTSNode_lines:
  "parseDTSNode sample_lines =
     (Some (Node ''/'' [\<lparr>pname = ''compatible'', pvalue = StringV ''test,device''\<rparr>,
                       \<lparr>pname = ''model'', pvalue = StringV ''Test Device''\<rparr>] []), [])"
  apply (subst parseDTSNode.simps)
  apply (simp add: sample_lines_def dts_defs)
  apply (subst parseDTSNode_body.simps)
  apply (simp add: dts_defs)
  apply (subst parseDTSNode_body.simps)
  apply (simp add: dts_defs)
  apply (subst parseDTSNode_body.simps)
  apply (simp add: dts_defs)
  done

lemma parseDTSNode_no_equals:
  "parseDTSNode sample_no_equals =
     (Some (Node ''/'' [\<lparr>pname = ''a'', pvalue = StringV ''1''\<rparr>] []), [])"
  apply (subst parseDTSNode.simps)
  apply (simp add: sample_no_equals_def dts_defs)
  apply (subst parseDTSNode_body.simps)
  apply (simp add: dts_defs)
  apply (subst parseDTSNode_body.simps)
  apply (simp add: dts_defs)
  apply (subst parseDTSNode_body.simps)
  apply (simp add: dts_defs)
  done

text \<open>
  C5, as the code has it.  The decoder takes from the line that opens a node the name
  before the brace and nothing else, so the sample on a single line decodes to a root
  named \<^verbatim>\<open>/\<close> without properties and without children.  With one item on each line the root
  named \<^verbatim>\<open>/\<close> has exactly the two string properties \<open>compatible\<close> and \<open>model\<close>, in this order,
  and no children.
\<close>

theorem C5_decode_sample:
  "DTSParser_parse fn sample_single_line
     = Some \<lparr>root = Some (Node ''/'' [] []), sourceFile = fn\<rparr>
   \<and> DTSParser_parse fn sample_lines
     = Some \<lparr>root = Some (Node ''/''
                 [\<lparr>pname = ''compatible'', pvalue = StringV ''test,device''\<rparr>,
                  \<lparr>pname = ''model'', pvalue = StringV ''Test Device''\<rparr>] []),
             sourceFile = fn\<rparr>"
  by (simp add: DTSParser_parse_def parseDTSFile_def DeviceTree_new_def
      parseDTSNode_single_line parseDTSNode_lines)

text \<open>C5 as stated fails: the root decoded from the single line does not have two
  properties.\<close>

theorem C5_single_line_counterexample:
  "map_option (length \<circ> properties) (fst (parseDTSNode sample_single_line)) \<noteq> Some 2"
  by (simp add: parseDTSNode_single_line)

lemma str_find_single: "str_find [c] s \<noteq> None \<Longrightarrow> c \<in> set s"
  by (induction s) (auto split: if_splits)

lemma str_contains_single: "str_contains [c] s \<Longrightarrow> c \<in> set s"
  unfolding str_contains_def by (rule str_find_single)

lemma in_erase_leading: "c \<in> set (erase_leading s) \<Longrightarrow> c \<in> set s"
  unfolding erase_leading_def by (rule set_dropWhileD)

lemma in_erase_trailing: "c \<in> set (erase_trailing s) \<Longrightarrow> c \<in> set s"
  unfolding erase_trailing_def using set_dropWhileD [of c is_blank "rev s"] by simp

lemma in_substr: "c \<in> set (substr s p n) \<Longrightarrow> c \<in> set s"
  unfolding substr_def by (auto dest: in_set_takeD in_set_dropD)

lemma parseDTSValue_no_continuation:
  assumes "CHR 0x5C \<notin> set line"
  shows "parseDTSValue stream line = (fst (parseDTSValue [] line), stream)"
proof -
  define v0 where "v0 = (case str_find ''='' line of Some equalPos \<Rightarrow> drop (equalPos + 1) line
                | None \<Rightarrow> line)"
  define v1 where "v1 = erase_trailing (erase_leading v0)"
  define v where "v = (if v1 \<noteq> [] \<and> str_at v1 (length v1 - 1) = CHR '';''
               then substr v1 0 (length v1 - 1) else v1)"
  have "set v0 \<subseteq> set line"
    unfolding v0_def by (auto split: option.splits dest: in_set_dropD)
  then have "set v1 \<subseteq> set line"
    unfolding v1_def by (auto dest!: in_erase_trailing in_erase_leading)
  then have "set v \<subseteq> set line"
    unfolding v_def by (auto dest!: in_substr)
  with assms have nc: "\<not> str_contains [CHR 0x5C] v"
    by (auto dest: str_contains_single)
  have "parseDTSValue s line
      = (if str_contains [CHR 0x5C] v then parseDTSValue_loop v s else (v, s))" for s
    unfolding parseDTSValue_def Let_def v_def v1_def v0_def by (rule refl)
  with nc show ?thesis by simp
qed

lemma parseDTSProperty_no_continuation:
  assumes "CHR 0x5C \<notin> set line"
  shows "parseDTSProperty stream line = (fst (parseDTSProperty [] line), stream)"
  using parseDTSValue_no_continuation [OF assms, of stream]
    parseDTSValue_no_continuation [OF assms, of "[]"]
  by (simp add: parseDTSProperty_def Let_def split: option.splits sum.splits prod.splits)

lemma first_line:
  assumes "pre \<noteq> []" and "last pre = newline"
  shows "\<exists>l1 pre'. pre = l1 @ newline # pre' \<and> newline \<notin> set l1
           \<and> (pre' = [] \<or> last pre' = newline)"
proof -
  from assms have "newline \<in> set pre" by (metis last_in_set)
  then obtain l1 pre' where p: "pre = l1 @ newline # pre'" and n: "newline \<notin> set l1"
    by (auto dest: split_list_first)
  from p assms(2) have "pre' = [] \<or> last pre' = newline"
    by (cases "pre' = []") auto
  with p n show ?thesis by blast
qed

lemma body_skip_line:
  assumes "newline \<notin> set line"
    and "\<not> str_contains ''='' line"
    and "\<not> str_contains ''{'' line"
    and "\<not> str_contains ''};'' (erase_leading line)"
  shows "parseDTSNode_body (line @ newline # rest) node nodeStack
         = parseDTSNode_body rest node nodeStack"
  using assms
  by (subst parseDTSNode_body.simps) (simp add: getline_line str_contains_def)

lemma getline_last: "d \<notin> set l \<Longrightarrow> l \<noteq> [] \<Longrightarrow> getline d l = Some (l, [])"
proof -
  assume "d \<notin> set l" and ne: "l \<noteq> []"
  then have all: "\<forall>c \<in> set l. c \<noteq> d" by auto
  then have tw: "takeWhile (\<lambda>c. c \<noteq> d) l = l" and dw: "dropWhile (\<lambda>c. c \<noteq> d) l = []"
    by simp_all
  from ne show ?thesis by (simp add: getline_def tw dw)
qed

lemma body_skip_last_line:
  assumes "newline \<notin> set line"
    and "\<not> str_contains ''='' line"
    and "\<not> str_contains ''{'' line"
    and "\<not> str_contains ''};'' (erase_leading line)"
  shows "parseDTSNode_body line node nodeStack = parseDTSNode_body [] node nodeStack"
proof (cases "line = []")
  case True
  then show ?thesis by simp
next
  case False
  with assms show ?thesis
    by (subst parseDTSNode_body.simps) (simp add: getline_last str_contains_def)
qed

lemma node_skip_line:
  assumes "newline \<notin> set line"
    and "\<not> str_contains ''='' line"
    and "\<not> str_contains ''{'' line"
  shows "parseDTSNode (line @ newline # rest) = parseDTSNode rest"
  using assms
  by (subst parseDTSNode.simps) (simp add: getline_line str_contains_def Let_def)

lemma node_skip_last_line:
  assumes "newline \<notin> set line"
    and "\<not> str_contains ''='' line"
    and "\<not> str_contains ''{'' line"
  shows "fst (parseDTSNode line) = fst (parseDTSNode [])"
proof (cases "line = []")
  case True
  then show ?thesis by simp
next
  case False
  with assms have "parseDTSNode line = parseDTSNode []"
    by (subst parseDTSNode.simps) (simp add: getline_last str_contains_def Let_def)
  then show ?thesis by simp
qed

lemma body_after_prefix:
  assumes base: "\<And>nd st. fst (parseDTSNode_body X1 nd st) = fst (parseDTSNode_body X2 nd st)"
  shows "CHR 0x5C \<notin> set pre \<Longrightarrow> pre = [] \<or> last pre = newline \<Longrightarrow>
         fst (parseDTSNode_body (pre @ X1) node nodeStack)
         = fst (parseDTSNode_body (pre @ X2) node nodeStack)"
proof (induction "length pre" arbitrary: pre node nodeStack rule: less_induct)
  case less
  show ?case
  proof (cases "pre = []")
    case True
    then show ?thesis by (simp add: base)
  next
    case False
    with less.prems(2) obtain l1 pre' where p: "pre = l1 @ newline # pre'"
      and n: "newline \<notin> set l1" and e: "pre' = [] \<or> last pre' = newline"
      using first_line [of pre] by auto
    from p less.prems(1) have b1: "CHR 0x5C \<notin> set l1" and b': "CHR 0x5C \<notin> set pre'"
      by auto
    have g: "getline newline (pre @ X) = Some (l1, pre' @ X)" for X
      using getline_line [OF n, of "pre' @ X"] by (simp add: p)
    have P: "parseDTSProperty (pre' @ X) l1 = (fst (parseDTSProperty [] l1), pre' @ X)" for X
      by (rule parseDTSProperty_no_continuation [OF b1])
    have IH: "fst (parseDTSNode_body (pre' @ X1) nd st)
         = fst (parseDTSNode_body (pre' @ X2) nd st)" for nd st
      using less.hyps [of pre' nd st] b' e by (simp add: p)
    show ?thesis
      apply (subst parseDTSNode_body.simps [of "pre @ X1"])
      apply (subst parseDTSNode_body.simps [of "pre @ X2"])
      apply (simp add: g P IH Let_def split: option.split sum.split)
      done
  qed
qed

lemma node_after_prefix:
  assumes base: "\<And>nd st. fst (parseDTSNode_body X1 nd st) = fst (parseDTSNode_body X2 nd st)"
    and base': "fst (parseDTSNode X1) = fst (parseDTSNode X2)"
  shows "CHR 0x5C \<notin> set pre \<Longrightarrow> pre = [] \<or> last pre = newline \<Longrightarrow>
         fst (parseDTSNode (pre @ X1)) = fst (parseDTSNode (pre @ X2))"
proof (induction "length pre" arbitrary: pre rule: less_induct)
  case less
  show ?case
  proof (cases "pre = []")
    case True
    with base' show ?thesis by simp
  next
    case False
    with less.prems(2) obtain l1 pre' where p: "pre = l1 @ newline # pre'"
      and n: "newline \<notin> set l1" and e: "pre' = [] \<or> last pre' = newline"
      using first_line [of pre] by auto
    from p less.prems(1) have b': "CHR 0x5C \<notin> set pre'"
      by auto
    have g: "getline newline (pre @ X) = Some (l1, pre' @ X)" for X
      using getline_line [OF n, of "pre' @ X"] by (simp add: p)
    have IH: "fst (parseDTSNode (pre' @ X1)) = fst (parseDTSNode (pre' @ X2))"
      using less.hyps [of pre'] b' e by (simp add: p)
    have B: "fst (parseDTSNode_body (pre' @ X1) nd st)
         = fst (parseDTSNode_body (pre' @ X2) nd st)" for nd st
      using body_after_prefix [OF base b' e] .
    show ?thesis
      apply (subst parseDTSNode.simps [of "pre @ X1"])
      apply (subst parseDTSNode.simps [of "pre @ X2"])
      apply (simp add: g IH B Let_def case_prod_beta split: option.split)
      done
  qed
qed

lemma DTSParser_parse_fst:
  "fst (parseDTSNode c1) = fst (parseDTSNode c2) \<Longrightarrow> DTSParser_parse fn c1 = DTSParser_parse fn c2"
  by (simp add: DTSParser_parse_def parseDTSFile_def)

text \<open>
  C8, as the code has it.  A line without \<^verbatim>\<open>=\<close> that neither opens a node (no brace) nor
  closes one (no \<^verbatim>\<open>};\<close>) is not fatal.  When the loop over the lines of a node reads such
  a line, it passes over it: the decoder goes on with the next line, with the node and the
  stack of open nodes as they were.  For a whole file: when the text before the line ends
  a line and holds no backslash (the character that makes \<^verbatim>\<open>parseDTSValue\<close> take the
  following lines as the rest of a property value), the decoder reads the line as a line
  of its own, and the result of the decode is that of the same input without the line;
  this holds for a line ended by a newline and for a last line without one.
\<close>

theorem C8_line_without_equals_skipped:
  assumes "newline \<notin> set line"
    and "\<not> str_contains ''='' line"
    and "\<not> str_contains ''{'' line"
    and "\<not> str_contains ''};'' (erase_leading line)"
  shows "parseDTSNode_body (line @ newline # rest) node nodeStack
           = parseDTSNode_body rest node nodeStack
     \<and> (CHR 0x5C \<notin> set pre \<and> (pre = [] \<or> last pre = newline) \<longrightarrow>
          DTSParser_parse fn (pre @ line @ newline # rest) = DTSParser_parse fn (pre @ rest)
          \<and> DTSParser_parse fn (pre @ line) = DTSParser_parse fn pre)"
proof (intro conjI impI)
  show "parseDTSNode_body (line @ newline # rest) node nodeStack
           = parseDTSNode_body rest node nodeStack"
    by (rule body_skip_line [OF assms])
next
  assume h: "CHR 0x5C \<notin> set pre \<and> (pre = [] \<or> last pre = newline)"
  have "fst (parseDTSNode (pre @ line @ newline # rest)) = fst (parseDTSNode (pre @ rest))"
    using h by (intro node_after_prefix)
      (simp_all add: body_skip_line [OF assms] node_skip_line [OF assms(1-3)])
  then show "DTSParser_parse fn (pre @ line @ newline # rest) = DTSParser_parse fn (pre @ rest)"
    by (rule DTSParser_parse_fst)
next
  assume h: "CHR 0x5C \<notin> set pre \<and> (pre = [] \<or> last pre = newline)"
  have "fst (parseDTSNode (pre @ line)) = fst (parseDTSNode (pre @ []))"
    using h by (intro node_after_prefix)
      (simp_all add: body_skip_last_line [OF assms] node_skip_last_line [OF assms(1-3)])
  then show "DTSParser_parse fn (pre @ line) = DTSParser_parse fn pre"
    using DTSParser_parse_fst [of "pre @ line" pre fn] by simp
qed

theorem C8_line_without_equals_skipped_witness:
  "newline \<notin> set ''    ranges;''
   \<and> \<not> str_contains ''='' ''    ranges;''
   \<and> \<not> str_contains ''{'' ''    ranges;''
   \<and> \<not> str_contains ''};'' (erase_leading ''    ranges;'')
   \<and> CHR 0x5C \<notin> set (''/ {'' @ [newline])
   \<and> last (''/ {'' @ [newline]) = newline
   \<and> parseDTSNode_body (''    ranges;'' @ newline # ''};'') (Node ''/'' [] []) [[]]
       = parseDTSNode_body ''};'' (Node ''/'' [] []) [[]]
   \<and> DTSParser_parse ''x.dts'' ((''/ {'' @ [newline]) @ ''    ranges;'' @ newline # ''};'')
       = DTSParser_parse ''x.dts'' ((''/ {'' @ [newline]) @ ''};'')"
proof -
  have h: "newline \<notin> set ''    ranges;''" "\<not> str_contains ''='' ''    ranges;''"
    "\<not> str_contains ''{'' ''    ranges;''"
    "\<not> str_contains ''};'' (erase_leading ''    ranges;'')"
    by (simp_all add: dts_defs)
  have p: "CHR 0x5C \<notin> set (''/ {'' @ [newline])" "last (''/ {'' @ [newline]) = newline"
    by (simp_all add: newline_def)
  note t = C8_line_without_equals_skipped [OF h, of "''};''" "Node ''/'' [] []" "[[]]"
      "''/ {'' @ [newline]" "''x.dts''"]
  have a: "parseDTSNode_body (''    ranges;'' @ newline # ''};'') (Node ''/'' [] []) [[]]
       = parseDTSNode_body ''};'' (Node ''/'' [] []) [[]]"
    using t by (rule conjunct1)
  have b: "DTSParser_parse ''x.dts'' ((''/ {'' @ [newline]) @ ''    ranges;'' @ newline # ''};'')
       = DTSParser_parse ''x.dts'' ((''/ {'' @ [newline]) @ ''};'')"
    using t p by blast
  from h p a b show ?thesis by (intro conjI)
qed

text \<open>C8 as stated fails: the decode of a file with such a line does not fail, it
  returns a tree.\<close>

theorem C8_decode_fails_counterexample:
  "DTSParser_parse ''x.dts'' sample_no_equals \<noteq> None"
  by (simp add: DTSParser_parse_def parseDTSFile_def DeviceTree_new_def parseDTSNode_no_equals)


section \<open>Properties of the binary decoder\<close>

lemma byte_char_simps:
  "byte_char 0x70 = CHR ''p''" "byte_char 0x61 = CHR ''a''" "byte_char 0x62 = CHR ''b''"
  "byte_char 0x63 = CHR ''c''"
  by code_simp+

lemmas dtb_defs = read_token_def load32_def peek32_def bswap32_def cstring_at_def
  dtbPropertyValue_def printable_def parseDTBProperty_def addProperty_def removeProperty_def
  addChild_def

lemma parseDTBNode_at_bound:
  "parseDTBNode (Suc (Suc fuel)) hostLE data off off so le =
     (case read_token hostLE le data off of
        None \<Rightarrow> Some (Inl OutOfBounds)
      | Some token \<Rightarrow>
          if token = 1 then
            (case cstring_at data (off + 4) of
               None \<Rightarrow> Some (Inl OutOfBounds)
             | Some nodeName \<Rightarrow>
                 Some (Inr (Some (Node (if nodeName = [] \<or> nodeName = ''/'' then ''/''
                                        else nodeName) [] []),
                            off + 4 + (length nodeName + 1 + 3) div 4 * 4)))
          else Some (Inr (None, off)))"
  by (simp split: option.splits)

lemma parseDTBNode_root_empty:
  assumes "parseDTBNode fuel hostLE data off off so le = Some (Inr (Some n, c))"
  shows "properties n = [] \<and> children n = []"
proof (cases fuel)
  case 0
  with assms show ?thesis by simp
next
  case (Suc f)
  show ?thesis
  proof (cases f)
    case 0
    with Suc assms show ?thesis by (simp split: option.splits if_splits)
  next
    case (Suc g)
    with \<open>fuel = Suc f\<close> assms show ?thesis
      by (auto simp: parseDTBNode_at_bound split: option.splits if_splits)
  qed
qed


lemma parseDTBFile_root_empty:
  assumes "parseDTBFile fuel hostLE buffer tree = Some (Inr (True, tree'))"
  shows "\<exists>n. root tree' = Some n \<and> properties n = [] \<and> children n = []"
  using assms
  by (auto simp: parseDTBFile_def Let_def split: if_splits option.splits sum.splits prod.splits
      dest!: parseDTBNode_root_empty)


lemma example_property:
  "parseDTBProperty True example_dtb 64 100 True
     = Inr (\<lparr>pname = ''p'', pvalue = StringV ''abc''\<rparr>, 80)"
  by (simp add: dtb_defs byte_char_simps example_dtb_def)

text \<open>
  C1, on the sample blob, decoded on a little-endian machine.  \<^verbatim>\<open>parseDTBFile\<close> accepts the
  header and returns a tree whose root has neither the property nor the child of the
  structure block: it starts \<^verbatim>\<open>parseDTBNode\<close> with \<^verbatim>\<open>nextOffset\<close> equal to the offset of the
  node, and the loop over the tokens runs only while \<^verbatim>\<open>currentOffset < nextOffset\<close>.  The loop
  itself, started after the name of the root with a bound behind the structure block,
  reads the property and the child.
\<close>

theorem C1_sample_blob_root_without_content:
  "parseDTBFile (Suc (Suc 0)) True example_dtb DeviceTree_new
     = Some (Inr (True, \<lparr>root = Some (Node ''/'' [] []), sourceFile = []\<rparr>))
   \<and> parseDTBNode_loop (Suc (Suc (Suc (Suc 0)))) True example_dtb (Node ''/'' [] []) 64 100 100
       True
     = Some (Inr (Node ''/'' [\<lparr>pname = ''p'', pvalue = StringV ''abc''\<rparr>] [Node ''c'' [] []],
                  92))"
proof (rule conjI)
  show "parseDTBFile (Suc (Suc 0)) True example_dtb DeviceTree_new
     = Some (Inr (True, \<lparr>root = Some (Node ''/'' [] []), sourceFile = []\<rparr>))"
    by (simp add: parseDTBFile_def Let_def parseDTBNode_at_bound DeviceTree_new_def
        read_token_def load32_def peek32_def bswap32_def cstring_at_def example_dtb_def)
next
  show "parseDTBNode_loop (Suc (Suc (Suc (Suc 0)))) True example_dtb (Node ''/'' [] []) 64 100
       100 True
     = Some (Inr (Node ''/'' [\<lparr>pname = ''p'', pvalue = StringV ''abc''\<rparr>] [Node ''c'' [] []],
                  92))"
    by (simp add: dtb_defs byte_char_simps example_dtb_def)
qed

lemma parseDTBProperty_returned_value:
  assumes "parseDTBProperty hostLE data offset stringsOffset le = Inr (prop, nextOffset)"
    and "read_token hostLE le data (offset + 4) = Some len"
    and "bytes = take (unat len) (drop (offset + 12) data)"
  shows "length bytes = unat len
     \<and> pvalue prop =
         (if len = 0 then StringV []
          else if last bytes = 0 \<and> list_all printable (butlast bytes)
            then StringV (map byte_char (butlast bytes))
          else BinaryV bytes)"
proof -
  from assms(1,2) have bound: "offset + 12 + unat len \<le> length data"
    and v: "pvalue prop = dtbPropertyValue len (drop (offset + 12) data)"
    by (auto simp: parseDTBProperty_def Let_def split: option.splits if_splits)
  let ?pv = "drop (offset + 12) data"
  from bound have le: "unat len \<le> length ?pv" by simp
  then have len: "length bytes = unat len" by (simp add: assms(3))
  show ?thesis
  proof (cases "len = 0")
    case True
    with v len show ?thesis by (simp add: dtbPropertyValue_def)
  next
    case False
    then have pos: "unat len \<noteq> 0" by (simp add: unat_eq_0)
    have "bytes \<noteq> []" using len pos by auto
    then have "last bytes = bytes ! (length bytes - 1)" by (rule last_conv_nth)
    with len pos have l: "last bytes = ?pv ! (unat len - 1)"
      by (simp add: assms(3))
    have b: "butlast bytes = take (unat len - 1) ?pv"
      unfolding assms(3) using le by (rule butlast_take)
    from False have "0 < len" by (simp add: word_greater_zero_iff)
    with False v len l b show ?thesis
      by (simp add: dtbPropertyValue_def Let_def assms(3))
  qed
qed

text \<open>
  C9.  \<^verbatim>\<open>parseDTBProperty\<close> returns a property whenever the two words after the token can
  be read, the name offset is below \<open>0x1000000\<close>, the strings block holds a NUL-terminated
  name that is not empty at that offset, and the buffer holds the declared number of
  bytes of the value.  The property has that name, and its value is: the empty string for
  the length zero; for a positive length with a last byte NUL and all bytes before it
  printable (32 to 126), the string of the bytes before the NUL; in every other case the
  byte sequence of exactly the declared bytes.  The offset returned is behind the value
  padded to a multiple of four bytes.
\<close>

theorem C9_property_value_classification:
  assumes "read_token hostLE le data (offset + 4) = Some len"
    and "read_token hostLE le data (offset + 8) = Some nameoff"
    and "nameoff < 0x1000000"
    and "cstring_at data (stringsOffset + unat nameoff) = Some propName"
    and "propName \<noteq> []"
    and "offset + 12 + unat len \<le> length data"
    and "bytes = take (unat len) (drop (offset + 12) data)"
  shows "parseDTBProperty hostLE data offset stringsOffset le =
           Inr (\<lparr>pname = propName,
                 pvalue = (if len = 0 then StringV []
                           else if last bytes = 0 \<and> list_all printable (butlast bytes)
                             then StringV (map byte_char (butlast bytes))
                           else BinaryV bytes)\<rparr>,
                offset + 12 + unat ((len + 3) div 4 * 4))
         \<and> length bytes = unat len"
proof -
  let ?pv = "drop (offset + 12) data"
  from assms(6) have le: "unat len \<le> length ?pv" by simp
  then have len: "length bytes = unat len" by (simp add: assms(7))
  have v: "dtbPropertyValue len ?pv =
      (if len = 0 then StringV []
       else if last bytes = 0 \<and> list_all printable (butlast bytes)
         then StringV (map byte_char (butlast bytes))
       else BinaryV bytes)"
  proof (cases "len = 0")
    case True
    then show ?thesis by (simp add: dtbPropertyValue_def)
  next
    case False
    then have pos: "unat len \<noteq> 0" by (simp add: unat_eq_0)
    have "bytes \<noteq> []" using len pos by auto
    then have "last bytes = bytes ! (length bytes - 1)" by (rule last_conv_nth)
    with len pos have l: "last bytes = ?pv ! (unat len - 1)"
      by (simp add: assms(7))
    have b: "butlast bytes = take (unat len - 1) ?pv"
      unfolding assms(7) using le by (rule butlast_take)
    from False have "0 < len" by (simp add: word_greater_zero_iff)
    with False l b show ?thesis
      by (simp add: dtbPropertyValue_def Let_def assms(7))
  qed
  from assms(3) have no: "\<not> 0x1000000 \<le> nameoff" by simp
  from assms(6) have nb: "\<not> length data < offset + 12 + unat len" by simp
  have "parseDTBProperty hostLE data offset stringsOffset le =
      Inr (\<lparr>pname = propName, pvalue = dtbPropertyValue len ?pv\<rparr>,
           offset + 12 + unat ((len + 3) div 4 * 4))"
    using assms(1,2,4,5) no nb by (simp add: parseDTBProperty_def Let_def)
  with v len show ?thesis by simp
qed

theorem C9_property_value_classification_witness:
  "read_token True True example_props (0 + 4) = Some 0
   \<and> read_token True True example_props (0 + 8) = Some 0
   \<and> (0 :: u32) < 0x1000000
   \<and> cstring_at example_props (60 + unat (0 :: u32)) = Some ''p''
   \<and> ''p'' \<noteq> []
   \<and> 0 + 12 + unat (0 :: u32) \<le> length example_props
   \<and> [] = take (unat (0 :: u32)) (drop (0 + 12) example_props)
   \<and> parseDTBProperty True example_props 0 60 True
     = Inr (\<lparr>pname = ''p'', pvalue = StringV []\<rparr>, 12)
   \<and> parseDTBProperty True example_props 12 60 True
     = Inr (\<lparr>pname = ''p'', pvalue = StringV ''abc''\<rparr>, 28)
   \<and> parseDTBProperty True example_props 28 60 True
     = Inr (\<lparr>pname = ''p'', pvalue = BinaryV [1, 2, 3]\<rparr>, 44)
   \<and> parseDTBProperty True example_props 44 60 True
     = Inr (\<lparr>pname = ''p'', pvalue = BinaryV [1, 0]\<rparr>, 60)"
proof -
  have h1: "read_token True True example_props (0 + 4) = Some 0"
    and h2: "read_token True True example_props (0 + 8) = Some 0"
    by (simp_all add: read_token_def load32_def peek32_def bswap32_def example_props_def)
  have h3: "(0 :: u32) < 0x1000000"
    by simp
  have nm: "cstring_at example_props (60 + unat (0 :: u32)) = Some ''p''"
    by (simp add: cstring_at_def example_props_def byte_char_simps)
  have h5: "''p'' \<noteq> []"
    by simp
  have h6: "0 + 12 + unat (0 :: u32) \<le> length example_props"
    by (simp add: example_props_def)
  have h7: "[] = take (unat (0 :: u32)) (drop (0 + 12) example_props)"
    by simp
  have r0: "parseDTBProperty True example_props 0 60 True
     = Inr (\<lparr>pname = ''p'', pvalue = StringV []\<rparr>, 12)"
    using C9_property_value_classification [OF h1 h2 h3 nm h5 h6 h7] by simp
  have r1: "parseDTBProperty True example_props 12 60 True
     = Inr (\<lparr>pname = ''p'', pvalue = StringV ''abc''\<rparr>, 28)"
    using C9_property_value_classification
      [of True True example_props 12 4 0 60 "''p''" "[0x61, 0x62, 0x63, 0]"] nm
    by (simp add: read_token_def load32_def peek32_def bswap32_def example_props_def
        printable_def byte_char_simps)
  have r2: "parseDTBProperty True example_props 28 60 True
     = Inr (\<lparr>pname = ''p'', pvalue = BinaryV [1, 2, 3]\<rparr>, 44)"
    using C9_property_value_classification
      [of True True example_props 28 3 0 60 "''p''" "[1, 2, 3]"] nm
    by (simp add: read_token_def load32_def peek32_def bswap32_def example_props_def)
  have r3: "parseDTBProperty True example_props 44 60 True
     = Inr (\<lparr>pname = ''p'', pvalue = BinaryV [1, 0]\<rparr>, 60)"
    using C9_property_value_classification
      [of True True example_props 44 2 0 60 "''p''" "[1, 0]"] nm
    by (simp add: read_token_def load32_def peek32_def bswap32_def example_props_def
        printable_def)
  from h1 h2 h3 nm h5 h6 h7 r0 r1 r2 r3 show ?thesis by (intro conjI)
qed

section \<open>Properties of the paths\<close>

lemma addressable_node_at: "addressable n pos \<Longrightarrow> node_at n pos \<noteq> None"
  by (induction pos arbitrary: n) auto

lemma node_at_snoc:
  "node_at n (ps @ [i]) =
     (case node_at n ps of
        None \<Rightarrow> None
      | Some p \<Rightarrow> if i < length (children p) then Some (children p ! i) else None)"
  by (induction ps arbitrary: n) auto

lemma names_along_snoc:
  "node_at n ps = Some p \<Longrightarrow> names_along n (ps @ [i]) = names_along n ps @ [name (children p ! i)]"
  by (induction ps arbitrary: n) (auto split: if_splits)

lemma pathComponents_names:
  "node_at rt pos \<noteq> None \<Longrightarrow> pathComponents rt (Some pos) comps = Some (names_along rt pos @ comps)"
proof (induction pos arbitrary: comps rule: rev_induct)
  case Nil
  show ?case
    by (subst pathComponents.simps, simp add: getParent_def) (simp add: pathComponents.simps)
next
  case (snoc i ps)
  from snoc.prems obtain p where p: "node_at rt ps = Some p" and i: "i < length (children p)"
    by (auto simp: node_at_snoc split: option.splits if_splits)
  then have c: "node_at rt (ps @ [i]) = Some (children p ! i)"
    by (simp add: node_at_snoc)
  have "pathComponents rt (Some (ps @ [i])) comps
      = pathComponents rt (Some ps) (name (children p ! i) # comps)"
    by (subst pathComponents.simps) (simp add: c getParent_def)
  also have "\<dots> = Some (names_along rt ps @ name (children p ! i) # comps)"
    using snoc.IH [of "name (children p ! i) # comps"] p by simp
  finally show ?case
    by (simp add: names_along_snoc [OF p])
qed

lemma foldl_join:
  "\<forall>c \<in> set names. c \<noteq> ''/'' \<Longrightarrow>
     foldl (\<lambda>pth component. if component \<noteq> ''/'' then pth @ ''/'' @ component else ''/'') acc names
       = acc @ concat (map ((#) CHR ''/'') names)"
  by (induction names arbitrary: acc) simp_all

lemma joinComponents_root:
  "\<forall>c \<in> set names. c \<noteq> ''/'' \<Longrightarrow>
     joinComponents (''/'' # names) = ''/'' @ concat (map ((#) CHR ''/'') names)"
  by (simp add: joinComponents_def foldl_join)

lemma names_along_Cons: "names_along n pos = name n # child_names n pos"
  by (induction pos arbitrary: n) simp_all

lemma addressable_names:
  "addressable n pos \<Longrightarrow> \<forall>c \<in> set (child_names n pos). c \<noteq> [] \<and> CHR ''/'' \<notin> set c"
  by (induction pos arbitrary: n) auto

lemma loop_skip_slash:
  "findNodeByPath_loop rt (CHR ''/'' # s) cur = findNodeByPath_loop rt s cur"
  by (subst findNodeByPath_loop.simps) (simp add: getline_def)

lemma loop_end: "findNodeByPath_loop rt [] cur = Some cur"
  by (subst findNodeByPath_loop.simps) (simp add: getline_def)

lemma loop_component:
  assumes "c \<noteq> []" and "CHR ''/'' \<notin> set c" and "R = [] \<or> hd R = CHR ''/''"
  shows "findNodeByPath_loop rt (c @ R) cur =
     (case find_child rt cur c of None \<Rightarrow> None | Some ch \<Rightarrow> findNodeByPath_loop rt R ch)"
proof (cases R)
  case Nil
  from assms(2) have all: "\<forall>x \<in> set c. x \<noteq> CHR ''/''" by auto
  then have tw: "takeWhile (\<lambda>x. x \<noteq> CHR ''/'') c = c"
    and dw: "dropWhile (\<lambda>x. x \<noteq> CHR ''/'') c = []"
    by simp_all
  from assms(1) have "getline CHR ''/'' c = Some (c, [])"
    by (simp add: getline_def tw dw)
  with assms(1) show ?thesis
    unfolding Nil by (subst findNodeByPath_loop.simps) simp
next
  case (Cons x R')
  with assms(3) have R: "R = CHR ''/'' # R'" by simp
  have "getline CHR ''/'' (c @ CHR ''/'' # R') = Some (c, R')"
    using assms(2) by (rule getline_line)
  with assms(1) show ?thesis
    unfolding R
    by (subst findNodeByPath_loop.simps) (simp add: loop_skip_slash split: option.splits)
qed

lemma loop_descend:
  assumes "node_at rt cur = Some n" and "addressable n pos"
  shows "findNodeByPath_loop rt (concat (map ((#) CHR ''/'') (child_names n pos))) cur
         = Some (cur @ pos)"
  using assms
proof (induction pos arbitrary: cur n)
  case Nil
  show ?case by (simp add: loop_end)
next
  case (Cons i "is")
  let ?c = "children n ! i"
  let ?R = "concat (map ((#) CHR ''/'') (child_names ?c is))"
  from Cons.prems(2) have a: "addressable ?c is" and i: "i < length (children n)"
    and nm: "name ?c \<noteq> []" "CHR ''/'' \<notin> set (name ?c)"
    and ff: "find_first (\<lambda>c. name c = name ?c) (children n) = Some i"
    by simp_all
  have R: "?R = [] \<or> hd ?R = CHR ''/''"
    by (cases "child_names ?c is") simp_all
  have fc: "find_child rt cur (name ?c) = Some (cur @ [i])"
    using Cons.prems(1) ff by (simp add: find_child_def)
  have at: "node_at rt (cur @ [i]) = Some ?c"
    using Cons.prems(1) i by (simp add: node_at_snoc)
  have "findNodeByPath_loop rt (concat (map ((#) CHR ''/'') (child_names n (i # is)))) cur
      = findNodeByPath_loop rt (name ?c @ ?R) cur"
    by (simp add: loop_skip_slash)
  also have "\<dots> = findNodeByPath_loop rt ?R (cur @ [i])"
    using loop_component [OF nm R, of rt cur] fc by simp
  also have "\<dots> = Some ((cur @ [i]) @ is)"
    using Cons.IH [OF at a] .
  finally show ?case by simp
qed


text \<open>
  C10, as the code has it.  In a tree whose root is named \<^verbatim>\<open>/\<close>, take a node that is reached
  from the root through children with names that are not empty and hold no \<^verbatim>\<open>/\<close>, each the
  first child of its parent with its name.  Its full path is \<^verbatim>\<open>/\<close> followed, for each child
  on the way, by \<^verbatim>\<open>/\<close> and the name of the child (so \<^verbatim>\<open>/\<close> for the root itself), and
  \<^verbatim>\<open>findNodeByPath\<close> on the root with this path returns the node itself.
\<close>

theorem C10_path_round_trip:
  assumes "name rt = ''/''" and "addressable rt pos"
  shows "getFullPath rt pos = Some (''/'' @ concat (map ((#) CHR ''/'') (child_names rt pos)))
     \<and> Option.bind (getFullPath rt pos) (findNodeByPath rt) = Some pos"
proof -
  let ?names = "child_names rt pos"
  let ?R = "concat (map ((#) CHR ''/'') ?names)"
  have ok: "\<forall>c \<in> set ?names. c \<noteq> [] \<and> CHR ''/'' \<notin> set c"
    using assms(2) by (rule addressable_names)
  then have ns: "\<forall>c \<in> set ?names. c \<noteq> ''/''" by auto
  have "pathComponents rt (Some pos) [] = Some (names_along rt pos @ [])"
    using addressable_node_at [OF assms(2)] by (rule pathComponents_names)
  then have "pathComponents rt (Some pos) [] = Some (''/'' # ?names)"
    using names_along_Cons [of rt pos] assms(1) by simp
  then have full: "getFullPath rt pos = Some (''/'' @ ?R)"
    by (simp add: getFullPath_def joinComponents_root [OF ns])
  have "findNodeByPath rt (''/'' @ ?R) = Some pos"
  proof (cases pos)
    case Nil
    then show ?thesis by (simp add: findNodeByPath_def)
  next
    case (Cons i "is")
    then have "?R \<noteq> []" by simp
    then have "findNodeByPath rt (''/'' @ ?R) = findNodeByPath_loop rt ?R []"
      by (simp add: findNodeByPath_def str_at_def substr_def)
    also have "\<dots> = Some ([] @ pos)"
      using loop_descend [of rt "[]" rt pos] assms(2) by simp
    finally show ?thesis by simp
  qed
  with full show ?thesis by simp
qed

theorem C10_path_round_trip_witness:
  "name (Node ''/'' [] [Node ''a'' [] [], Node ''b'' [] []]) = ''/''
   \<and> addressable (Node ''/'' [] [Node ''a'' [] [], Node ''b'' [] []]) [1]
   \<and> getFullPath (Node ''/'' [] [Node ''a'' [] [], Node ''b'' [] []]) [1] = Some ''//b''
   \<and> Option.bind (getFullPath (Node ''/'' [] [Node ''a'' [] [], Node ''b'' [] []]) [1])
        (findNodeByPath (Node ''/'' [] [Node ''a'' [] [], Node ''b'' [] []])) = Some [1]"
proof -
  have h: "name (Node ''/'' [] [Node ''a'' [] [], Node ''b'' [] []]) = ''/''"
    "addressable (Node ''/'' [] [Node ''a'' [] [], Node ''b'' [] []]) [1]"
    by simp_all
  have p: "getFullPath (Node ''/'' [] [Node ''a'' [] [], Node ''b'' [] []]) [1] = Some ''//b''"
    using C10_path_round_trip [OF h, THEN conjunct1] by simp
  have f: "Option.bind (getFullPath (Node ''/'' [] [Node ''a'' [] [], Node ''b'' [] []]) [1])
        (findNodeByPath (Node ''/'' [] [Node ''a'' [] [], Node ''b'' [] []])) = Some [1]"
    using C10_path_round_trip [OF h, THEN conjunct2] by simp
  from h p f show ?thesis by (intro conjI)
qed

text \<open>C10 as stated fails: of two children with the same name, the path of the second
  leads to the first.\<close>

theorem C10_duplicate_name_counterexample:
  "Option.bind (getFullPath (Node ''/'' [] [Node ''a'' [] [], Node ''a'' [] []]) [1])
     (findNodeByPath (Node ''/'' [] [Node ''a'' [] [], Node ''a'' [] []])) \<noteq> Some [1]"
  apply (simp add: getFullPath_def)
  apply (subst pathComponents.simps, simp add: getParent_def)
  apply (subst pathComponents.simps, simp add: getParent_def)
  apply (simp add: pathComponents.simps joinComponents_def findNodeByPath_def str_at_def
      substr_def)
  apply (subst findNodeByPath_loop.simps, simp add: getline_def)
  apply (subst findNodeByPath_loop.simps, simp add: getline_def find_child_def)
  apply (subst findNodeByPath_loop.simps, simp add: getline_def)
  done

end
